theory Spec2Isabelle
  imports Complex_Main "HOL-Library.Sublist"
begin

section \<open>JavaScript strings and numbers\<close>

text \<open>
  A JavaScript string is a sequence of UTF-16 code units. The model covers the strings
  whose code units are below 256 (Latin-1): one Isabelle \<open>char\<close> per code unit. On
  that range every function below computes what the JavaScript runtime computes, unless
  a narrower range is stated with it.
\<close>

text \<open>The regular-expression class \<open>\d\<close>: the ten ASCII digits.\<close>

definition is_digit :: "char \<Rightarrow> bool" where
  "is_digit c = (c \<in> set ''0123456789'')"

text \<open>
  The class \<open>\s\<close> (and the characters \<open>trim\<close> strips) below 256: tab, line feed,
  vertical tab, form feed, carriage return, space and the no-break space.
\<close>

definition is_space :: "char \<Rightarrow> bool" where
  "is_space c = (c \<in> set [CHR 0x09, CHR 0x0A, CHR 0x0B, CHR 0x0C, CHR 0x0D, CHR 0x20, CHR 0xA0])"

definition lower_letters :: string where
  "lower_letters = ''abcdefghijklmnopqrstuvwxyz''"

definition upper_letters :: string where
  "upper_letters = ''ABCDEFGHIJKLMNOPQRSTUVWXYZ''"

text \<open>The class \<open>[a-zA-Z0-9]\<close>.\<close>

definition is_alnum :: "char \<Rightarrow> bool" where
  "is_alnum c = (c \<in> set lower_letters \<or> c \<in> set upper_letters \<or> is_digit c)"

text \<open>
  The accented capitals of Latin-1, \<open>0xC0-0xDE\<close> without the multiplication sign
  \<open>0xD7\<close>, and their small forms, 32 code units up.
\<close>

definition latin1_capitals :: string where
  "latin1_capitals =
     [CHR 0xC0, CHR 0xC1, CHR 0xC2, CHR 0xC3, CHR 0xC4, CHR 0xC5, CHR 0xC6, CHR 0xC7,
      CHR 0xC8, CHR 0xC9, CHR 0xCA, CHR 0xCB, CHR 0xCC, CHR 0xCD, CHR 0xCE, CHR 0xCF,
      CHR 0xD0, CHR 0xD1, CHR 0xD2, CHR 0xD3, CHR 0xD4, CHR 0xD5, CHR 0xD6, CHR 0xD8,
      CHR 0xD9, CHR 0xDA, CHR 0xDB, CHR 0xDC, CHR 0xDD, CHR 0xDE]"

definition latin1_smalls :: string where
  "latin1_smalls =
     [CHR 0xE0, CHR 0xE1, CHR 0xE2, CHR 0xE3, CHR 0xE4, CHR 0xE5, CHR 0xE6, CHR 0xE7,
      CHR 0xE8, CHR 0xE9, CHR 0xEA, CHR 0xEB, CHR 0xEC, CHR 0xED, CHR 0xEE, CHR 0xEF,
      CHR 0xF0, CHR 0xF1, CHR 0xF2, CHR 0xF3, CHR 0xF4, CHR 0xF5, CHR 0xF6, CHR 0xF8,
      CHR 0xF9, CHR 0xFA, CHR 0xFB, CHR 0xFC, CHR 0xFD, CHR 0xFE]"

text \<open>\<open>String.prototype.toLowerCase\<close> on Latin-1.\<close>

definition toLowerCase_char :: "char \<Rightarrow> char" where
  "toLowerCase_char c =
     (case map_of (zip (upper_letters @ latin1_capitals) (lower_letters @ latin1_smalls)) c of
        Some l \<Rightarrow> l
      | None \<Rightarrow> c)"

definition toLowerCase :: "string \<Rightarrow> string" where
  "toLowerCase s = map toLowerCase_char s"

text \<open>
  \<open>String.prototype.toUpperCase\<close>, on the ASCII range only: the one place that calls it
  applies it to the base-36 digits of a number.
\<close>

definition toUpperCase_char :: "char \<Rightarrow> char" where
  "toUpperCase_char c =
     (case map_of (zip lower_letters upper_letters) c of Some u \<Rightarrow> u | None \<Rightarrow> c)"

definition toUpperCase :: "string \<Rightarrow> string" where
  "toUpperCase s = map toUpperCase_char s"

text \<open>\<open>s.lastIndexOf(c)\<close>: the last position of \<open>c\<close>, or \<open>-1\<close>.\<close>

fun lastIndexOf_from :: "string \<Rightarrow> char \<Rightarrow> int \<Rightarrow> int \<Rightarrow> int" where
  "lastIndexOf_from [] c i found = found"
| "lastIndexOf_from (x # xs) c i found =
     lastIndexOf_from xs c (i + 1) (if x = c then i else found)"

definition lastIndexOf :: "string \<Rightarrow> char \<Rightarrow> int" where
  "lastIndexOf s c = lastIndexOf_from s c 0 (- 1)"

text \<open>\<open>s.substring(start)\<close>: a negative start counts as 0, one past the end as the length.\<close>

definition substring :: "string \<Rightarrow> int \<Rightarrow> string" where
  "substring s start = drop (nat (max 0 start)) s"

text \<open>\<open>s.substr(start, len)\<close> for a non-negative start.\<close>

definition substr :: "string \<Rightarrow> nat \<Rightarrow> nat \<Rightarrow> string" where
  "substr s start len = take len (drop start s)"

text \<open>\<open>s.split(c)[0]\<close>: the text before the first \<open>c\<close>.\<close>

definition split_first :: "char \<Rightarrow> string \<Rightarrow> string" where
  "split_first c s = takeWhile (\<lambda>x. x \<noteq> c) s"

text \<open>\<open>s.split(c).pop()\<close>: the text after the last \<open>c\<close>.\<close>

definition split_last :: "char \<Rightarrow> string \<Rightarrow> string" where
  "split_last c s = rev (takeWhile (\<lambda>x. x \<noteq> c) (rev s))"

definition trim :: "string \<Rightarrow> string" where
  "trim s = rev (dropWhile is_space (rev (dropWhile is_space s)))"

text \<open>The decimal digits of a natural number, as \<open>Number::toString\<close> writes an integer.\<close>

definition digit_char :: "nat \<Rightarrow> char" where
  "digit_char d = ''0123456789'' ! d"

fun show_nat :: "nat \<Rightarrow> string" where
  "show_nat n = (if n < 10 then [digit_char n] else show_nat (n div 10) @ [digit_char (n mod 10)])"

declare show_nat.simps [simp del]

text \<open>
  \<open>Number::toString\<close> of a non-negative multiple of \<open>1/100\<close> below \<open>10^21\<close>: the
  integer part, then the hundredths without trailing zeros. These are the only numbers
  \<open>formatFileSize\<close> converts.
\<close>

definition number_to_string :: "real \<Rightarrow> string" where
  "number_to_string x =
     (let h = nat \<lfloor>x * 100\<rfloor>; f = h mod 100
      in show_nat (h div 100) @
         (if f = 0 then []
          else CHR ''.'' # digit_char (f div 10) #
               (if f mod 10 = 0 then [] else [digit_char (f mod 10)])))"

text \<open>\<open>Math.round\<close>: the nearest integer, a tie going up.\<close>

definition math_round :: "real \<Rightarrow> int" where
  "math_round x = \<lfloor>x + 1 / 2\<rfloor>"

section \<open>ScannerService.formatFileSize\<close>

text \<open>
  \<^verbatim>\<open>
  if (sizeInBytes === 0) return 'Unknown';
  const units = ['B', 'KB', 'MB', 'GB'];
  let size = sizeInBytes; let unitIndex = 0;
  while (size >= 1024 && unitIndex <= units.length - 1) { size /= 1024; unitIndex++; }
  return `${Math.round(size * 100) / 100} ${units[unitIndex]}`;
  \<close>
  The size is a byte count, a natural number. Dividing a double by 1024 is exact, and so
  is \<open>size * 100\<close> for a byte count below \<open>2^46\<close>, so the numbers are modelled by
  the reals they denote. Reading \<open>units[unitIndex]\<close> past the end of the array gives
  \<open>undefined\<close>, which the template literal writes as the word.
\<close>

definition units :: "string list" where
  "units = [''B'', ''KB'', ''MB'', ''GB'']"

function scale_loop :: "real \<Rightarrow> nat \<Rightarrow> real \<times> nat" where
  "scale_loop sz unitIndex =
     (if sz \<ge> 1024 \<and> int unitIndex \<le> int (length units) - 1
      then scale_loop (sz / 1024) (unitIndex + 1)
      else (sz, unitIndex))"
  by pat_completeness auto
termination
  by (relation "measure (\<lambda>(sz, unitIndex). 4 - unitIndex)") (auto simp: units_def)

declare scale_loop.simps [simp del]

definition unit_at :: "nat \<Rightarrow> string" where
  "unit_at i = (if i < length units then units ! i else ''undefined'')"

definition formatFileSize :: "nat \<Rightarrow> string" where
  "formatFileSize sizeInBytes =
     (if sizeInBytes = 0 then ''Unknown''
      else (case scale_loop (of_nat sizeInBytes) 0 of
              (sz, unitIndex) \<Rightarrow>
                number_to_string (of_int (math_round (sz * 100)) / 100) @ '' '' @
                unit_at unitIndex))"

section \<open>ScannerService.isDocumentFile\<close>

text \<open>
  \<^verbatim>\<open>
  const extension = filename.toLowerCase().substring(filename.lastIndexOf('.'));
  return documentExtensions.includes(extension);
  \<close>
\<close>

definition documentExtensions :: "string list" where
  "documentExtensions =
     [''.pdf'', ''.doc'', ''.docx'', ''.png'', ''.jpg'', ''.jpeg'', ''.gif'', ''.tiff'']"

definition isDocumentFile :: "string \<Rightarrow> bool" where
  "isDocumentFile filename =
     (let extension = substring (toLowerCase filename) (lastIndexOf filename CHR ''.'')
      in extension \<in> set documentExtensions)"

section \<open>The invoice-number patterns\<close>

text \<open>
  Every regular expression of the three \<open>extractInvoiceNumber\<close> methods has one shape: a
  literal keyword (compared without case under the flag \<open>i\<close>), then optionally
  \<open>[\s#]*\<close>, then the capture group \<open>(\d+)\<close> or \<open>(\d{4,})\<close>. A pattern is the record of
  those four choices.

  Matching at one position needs no backtracking: the greedy \<open>[\s#]*\<close> takes every
  separator, and giving one back leaves a separator where a digit is required; the
  greedy digits are the longest run. \<open>String.prototype.match\<close> tries the positions from
  the left and returns the first match, whose group 1 is the result here.
\<close>

record pattern =
  keyword :: string
  ignoreCase :: bool
  separators :: bool
  minDigits :: nat

text \<open>
  Under the flag \<open>i\<close> two code units match when their upper-case forms are equal; a
  code unit from 128 on never matches an ASCII letter, and every keyword is ASCII.
\<close>

definition char_matches :: "bool \<Rightarrow> char \<Rightarrow> char \<Rightarrow> bool" where
  "char_matches ic k c = (if ic then toUpperCase_char k = toUpperCase_char c else k = c)"

fun match_keyword :: "bool \<Rightarrow> string \<Rightarrow> string \<Rightarrow> string option" where
  "match_keyword ic [] s = Some s"
| "match_keyword ic (k # ks) [] = None"
| "match_keyword ic (k # ks) (c # cs) =
     (if char_matches ic k c then match_keyword ic ks cs else None)"

definition is_separator :: "char \<Rightarrow> bool" where
  "is_separator c = (is_space c \<or> c = CHR ''#'')"

definition match_at :: "pattern \<Rightarrow> string \<Rightarrow> string option" where
  "match_at p s =
     (case match_keyword (ignoreCase p) (keyword p) s of
        None \<Rightarrow> None
      | Some r \<Rightarrow>
          (let digits = takeWhile is_digit (if separators p then dropWhile is_separator r else r)
           in if minDigits p \<le> length digits then Some digits else None))"

fun regex_match :: "pattern \<Rightarrow> string \<Rightarrow> string option" where
  "regex_match p [] = match_at p []"
| "regex_match p (c # cs) =
     (case match_at p (c # cs) of Some d \<Rightarrow> Some d | None \<Rightarrow> regex_match p cs)"

text \<open>\<open>/invoice[\s#]*(\d+)/i\<close> and its siblings.\<close>

definition keyword_pattern :: "string \<Rightarrow> pattern" where
  "keyword_pattern k = \<lparr>keyword = k, ignoreCase = True, separators = True, minDigits = 1\<rparr>"

text \<open>\<open>/#(\d+)/\<close>\<close>

definition hash_pattern :: pattern where
  "hash_pattern = \<lparr>keyword = ''#'', ignoreCase = False, separators = False, minDigits = 1\<rparr>"

text \<open>\<open>/(\d{4,})/\<close>\<close>

definition digits4_pattern :: pattern where
  "digits4_pattern = \<lparr>keyword = [], ignoreCase = False, separators = False, minDigits = 4\<rparr>"

text \<open>\<open>for (const pattern of patterns) { const match = subject.match(pattern); if (match) ... }\<close>\<close>

fun first_match :: "pattern list \<Rightarrow> string \<Rightarrow> string option" where
  "first_match [] subject = None"
| "first_match (p # ps) subject =
     (case regex_match p subject of Some d \<Rightarrow> Some d | None \<Rightarrow> first_match ps subject)"

section \<open>DriveService: file names\<close>

definition DriveService_patterns :: "pattern list" where
  "DriveService_patterns =
     [keyword_pattern ''invoice'', keyword_pattern ''inv'', keyword_pattern ''bill'',
      keyword_pattern ''receipt'', hash_pattern, digits4_pattern]"

text \<open>
  \<^verbatim>\<open>
  for (const pattern of patterns) { ... if (match) { return `INV${match[1]}`; } }
  return `INV${Math.random().toString(36).substr(2, 6).toUpperCase()}`;
  \<close>
  \<open>random36\<close> is the string \<open>Math.random().toString(36)\<close>, which the runtime supplies.
\<close>

definition DriveService_extractInvoiceNumber :: "string \<Rightarrow> string \<Rightarrow> string" where
  "DriveService_extractInvoiceNumber random36 subject =
     (case first_match DriveService_patterns subject of
        Some d \<Rightarrow> ''INV'' @ d
      | None \<Rightarrow> ''INV'' @ toUpperCase (substr random36 2 6))"

text \<open>
  What the runtime can supply: a number \<open>x\<close> with \<open>0 \<le> x < 1\<close> written in base 36 is
  \<open>0\<close>, or \<open>0.\<close> followed by at least one of the digits \<open>0-9a-z\<close>.
\<close>

definition is_base36_digit :: "char \<Rightarrow> bool" where
  "is_base36_digit c = (is_digit c \<or> c \<in> set lower_letters)"

definition is_random36 :: "string \<Rightarrow> bool" where
  "is_random36 r =
     (r = ''0'' \<or> (take 2 r = ''0.'' \<and> drop 2 r \<noteq> [] \<and> list_all is_base36_digit (drop 2 r)))"

text \<open>The class \<open>[A-Z0-9]\<close> and the expression \<open>^INV[A-Z0-9]{6}$\<close> of the specification.\<close>

definition is_upper_alnum :: "char \<Rightarrow> bool" where
  "is_upper_alnum c = (is_digit c \<or> c \<in> set upper_letters)"

definition matches_INV6 :: "string \<Rightarrow> bool" where
  "matches_INV6 s = (take 3 s = ''INV'' \<and> length s = 9 \<and> list_all is_upper_alnum (drop 3 s))"

text \<open>
  \<^verbatim>\<open>
  try {
    const senderName = senderEmail.split('@')[0].replace(/[^a-zA-Z0-9]/g, '').substring(0, 20);
    const invoiceNumber = this.extractInvoiceNumber(subject);
    const dateObj = new Date(date);
    const formattedDate = dateObj.toISOString().split('T')[0];
    const extension = originalFilename.split('.').pop() || 'pdf';
    return `${senderName}_${invoiceNumber}_${formattedDate}.${extension}`;
  } catch (error) {
    const timestamp = new Date().toISOString().split('T')[0];
    return `${timestamp}_${originalFilename}`;
  }
  \<close>
  The runtime supplies \<open>isoDate d\<close>, the day of \<open>new Date(d)\<close> in ISO form (\<open>None\<close> when
  the date is invalid and \<open>toISOString\<close> throws), and \<open>today\<close>. The original file name
  is \<open>None\<close> when the caller passes \<open>undefined\<close>: then \<open>originalFilename.split\<close> throws
  and the \<open>catch\<close> writes the word \<open>undefined\<close>.
\<close>

definition generateStructuredFilename ::
  "(string \<Rightarrow> string option) \<Rightarrow> string \<Rightarrow> string \<Rightarrow>
   string \<Rightarrow> string \<Rightarrow> string \<Rightarrow> string option \<Rightarrow> string" where
  "generateStructuredFilename isoDate today random36 senderEmail subject date originalFilename =
     (let senderName = take 20 (filter is_alnum (split_first CHR ''@'' senderEmail));
          invoiceNumber = DriveService_extractInvoiceNumber random36 subject;
          fallback = today @ ''_'' @ (case originalFilename of None \<Rightarrow> ''undefined'' | Some f \<Rightarrow> f)
      in case isoDate date of
           None \<Rightarrow> fallback
         | Some formattedDate \<Rightarrow>
             (case originalFilename of
                None \<Rightarrow> fallback
              | Some f \<Rightarrow>
                  (let ext = split_last CHR ''.'' f;
                       extension = (if ext = [] then ''pdf'' else ext)
                   in senderName @ ''_'' @ invoiceNumber @ ''_'' @ formattedDate @ ''.'' @ extension)))"

section \<open>ScannerService: sender name and invoice number\<close>

text \<open>\<open>email.split('@')[0].replace(/[^a-zA-Z0-9\s]/g, ' ').trim()\<close>\<close>

definition extractSenderName :: "string \<Rightarrow> string" where
  "extractSenderName email =
     trim (map (\<lambda>c. if is_alnum c \<or> is_space c then c else CHR '' '')
             (split_first CHR ''@'' email))"

definition ScannerService_patterns :: "pattern list" where
  "ScannerService_patterns =
     [keyword_pattern ''invoice'', keyword_pattern ''inv'', keyword_pattern ''bill'',
      keyword_pattern ''receipt'', hash_pattern]"

text \<open>The scanner's own method returns the digits, or \<open>null\<close>.\<close>

definition ScannerService_extractInvoiceNumber :: "string \<Rightarrow> string option" where
  "ScannerService_extractInvoiceNumber subject = first_match ScannerService_patterns subject"

section \<open>The scanner's data\<close>

record EmailAttachment =
  att_filename :: string
  att_attachmentId :: string
  att_mimeType :: "string option"
  att_size :: nat

record EmailDetails =
  email_id :: string
  email_subject :: string
  email_from :: string
  email_date :: string
  attachments :: "EmailAttachment list"

text \<open>The row \<open>SheetsService.logDocument\<close> receives.\<close>

record DocumentData =
  row_emailDate :: string
  row_senderEmail :: string
  row_subject :: string
  row_fileName :: string
  row_driveFileId :: string
  row_fileSize :: string

text \<open>
  The entity \<open>ProcessedDocument\<close>. \<open>emailDate\<close> holds the header text from which the
  code builds its \<open>Date\<close>.
\<close>

record ProcessedDocument =
  emailId :: string
  messageId :: string
  senderEmail :: string
  senderName :: string
  subject :: string
  invoiceNumber :: "string option"
  emailDate :: string
  fileName :: string
  originalFileName :: string
  driveFileId :: string
  driveFileUrl :: string
  spreadsheetId :: string
  spreadsheetRow :: nat
  fileSize :: string
  mimeType :: "string option"
  doc_status :: string

text \<open>The entity \<open>ScanLog\<close>.\<close>

record ScanLog =
  status :: string
  emailsProcessed :: nat
  documentsProcessed :: nat
  errorsCount :: nat
  errorDetails :: "string option"
  completedAt :: "int option"

record ProcessedDocumentResult =
  res_emailId :: string
  res_fileName :: string
  res_driveFileId :: string
  res_spreadsheetRow :: nat

record ProcessingResult =
  processed :: nat
  errors :: "string list"
  details :: "ProcessedDocumentResult list"

section \<open>The scanner's collaborators and its persistent state\<close>

text \<open>
  The mail, archive, ledger and database services are outside the scanner. Each call is
  answered by the world: \<open>Inr\<close> the value returned, or \<open>Inl\<close> the message of the
  \<open>Error\<close> thrown (for a call that returns nothing, \<open>None\<close> is success and \<open>Some\<close> the
  message). An answer depends on the arguments of the call only.

  \<open>now\<close>, \<open>today\<close>, \<open>isoDate\<close> and \<open>random36\<close> are the clock, the parsing of dates and
  \<open>Math.random().toString(36)\<close> of the runtime. \<open>findDocumentsFails\<close> is the error of
  \<open>processedDocumentRepository.find\<close>, if it throws; \<open>saveDocument\<close> and \<open>saveScanLog\<close>
  are the \<open>save\<close> methods of the two repositories; the other fields are the methods of
  \<open>GmailService\<close>, \<open>DriveService\<close> and \<open>SheetsService\<close> of the same names. A message
  found by the search is read through its \<open>id\<close>.
\<close>

record world =
  now :: int
  today :: string
  isoDate :: "string \<Rightarrow> string option"
  random36 :: string
  ensureFolderExists :: "string \<Rightarrow> string + string"
  ensureSpreadsheetExists :: "string \<Rightarrow> string + string"
  spreadsheetRejectsFirst :: bool
  findDocumentsFails :: "string option"
  searchEmails :: "string + string list"
  getEmailDetails :: "string \<Rightarrow> string + EmailDetails option"
  downloadAttachment :: "string \<Rightarrow> string \<Rightarrow> string + string"
  uploadFile :: "string \<Rightarrow> string \<Rightarrow> string option \<Rightarrow> string \<Rightarrow> string + string"
  logDocument :: "string \<Rightarrow> DocumentData \<Rightarrow> string + nat"
  saveDocument :: "ProcessedDocument \<Rightarrow> string option"
  labelEmail :: "string \<Rightarrow> string option"
  saveScanLog :: "ScanLog \<Rightarrow> string option"

text \<open>
  What persists: the table of processed documents, the table of scan logs (the row of
  the current run is the last), the messages that bear the processed label, and the
  messages whose details were fetched, in the order of the calls.
\<close>

record store =
  documents :: "ProcessedDocument list"
  scanLogs :: "ScanLog list"
  labelled :: "string list"
  fetched :: "string list"

section \<open>JSON.stringify of a list of strings\<close>

definition json_escapes :: "(char \<times> string) list" where
  "json_escapes =
     [(CHR 0x00, ''u0000''), (CHR 0x01, ''u0001''), (CHR 0x02, ''u0002''),
      (CHR 0x03, ''u0003''), (CHR 0x04, ''u0004''), (CHR 0x05, ''u0005''),
      (CHR 0x06, ''u0006''), (CHR 0x07, ''u0007''), (CHR 0x08, ''b''), (CHR 0x09, ''t''),
      (CHR 0x0A, ''n''), (CHR 0x0B, ''u000b''), (CHR 0x0C, ''f''), (CHR 0x0D, ''r''),
      (CHR 0x0E, ''u000e''), (CHR 0x0F, ''u000f''), (CHR 0x10, ''u0010''),
      (CHR 0x11, ''u0011''), (CHR 0x12, ''u0012''), (CHR 0x13, ''u0013''),
      (CHR 0x14, ''u0014''), (CHR 0x15, ''u0015''), (CHR 0x16, ''u0016''),
      (CHR 0x17, ''u0017''), (CHR 0x18, ''u0018''), (CHR 0x19, ''u0019''),
      (CHR 0x1A, ''u001a''), (CHR 0x1B, ''u001b''), (CHR 0x1C, ''u001c''),
      (CHR 0x1D, ''u001d''), (CHR 0x1E, ''u001e''), (CHR 0x1F, ''u001f''),
      (CHR 0x22, [CHR 0x22]), (CHR 0x5C, [CHR 0x5C])]"

definition json_quote :: "string \<Rightarrow> string" where
  "json_quote s =
     CHR 0x22 #
     concat (map (\<lambda>c. case map_of json_escapes c of Some e \<Rightarrow> CHR 0x5C # e | None \<Rightarrow> [c]) s) @
     [CHR 0x22]"

fun join_commas :: "string list \<Rightarrow> string" where
  "join_commas [] = []"
| "join_commas [x] = x"
| "join_commas (x # y # ys) = x @ '','' @ join_commas (y # ys)"

definition json_stringify :: "string list \<Rightarrow> string" where
  "json_stringify xs = ''['' @ join_commas (map json_quote xs) @ '']''"

section \<open>ScannerService.processEmail\<close>

text \<open>
  Reading an identifier that no declaration in scope binds throws a \<open>ReferenceError\<close>
  whose message is the identifier followed by \<open>is not defined\<close>.
\<close>

definition read_variable :: "(string \<times> string) list \<Rightarrow> string \<Rightarrow> string + string" where
  "read_variable scope x =
     (case map_of scope x of None \<Rightarrow> Inl (x @ '' is not defined'') | Some v \<Rightarrow> Inr v)"

text \<open>
  One turn of the loop over the attachments (lines 131 to 205). \<open>Inr None\<close> is the
  \<open>continue\<close> of a skipped attachment, \<open>Inr (Some s)\<close> the summary pushed on
  \<open>processedDocs\<close>, \<open>Inl\<close> the message of the error the \<open>catch\<close> rethrows.

  The call of \<open>generateStructuredFilename\<close> passes \<open>emailDetails.filename\<close>, a property
  that \<open>EmailDetails\<close> does not have: the fourth argument is \<open>undefined\<close>. The variable
  declared for the result is \<open>structuredFileName\<close>; the summary pushed after the save
  reads \<open>structuredFilename\<close>.
\<close>

definition process_attachment ::
  "world \<Rightarrow> store \<Rightarrow> string \<Rightarrow> string \<Rightarrow> string \<Rightarrow> EmailDetails \<Rightarrow> EmailAttachment \<Rightarrow>
   (string + ProcessedDocumentResult option) \<times> store" where
  "process_attachment w st msgId folderId sheetId emailDetails attachment =
     (let failed = (\<lambda>message.
            Inl (''Failed to process attachment '' @ att_filename attachment @ '': '' @ message))
      in if \<not> isDocumentFile (att_filename attachment) then (Inr None, st)
         else
           (case downloadAttachment w msgId (att_attachmentId attachment) of
              Inl e \<Rightarrow> (failed e, st)
            | Inr fileBuffer \<Rightarrow>
                (let structuredFileName =
                       generateStructuredFilename (isoDate w) (today w) (random36 w)
                         (email_from emailDetails) (email_subject emailDetails)
                         (email_date emailDetails) None
                 in case uploadFile w fileBuffer structuredFileName (att_mimeType attachment)
                           folderId of
                      Inl e \<Rightarrow> (failed e, st)
                    | Inr fileId \<Rightarrow>
                        (case logDocument w sheetId
                                \<lparr>row_emailDate = email_date emailDetails,
                                 row_senderEmail = email_from emailDetails,
                                 row_subject = email_subject emailDetails,
                                 row_fileName = structuredFileName,
                                 row_driveFileId = fileId,
                                 row_fileSize = formatFileSize (att_size attachment)\<rparr> of
                           Inl e \<Rightarrow> (failed e, st)
                         | Inr rowNumber \<Rightarrow>
                             (let processedDocument =
                                    \<lparr>emailId = msgId,
                                     messageId = msgId,
                                     senderEmail = email_from emailDetails,
                                     senderName = extractSenderName (email_from emailDetails),
                                     subject = email_subject emailDetails,
                                     invoiceNumber =
                                       ScannerService_extractInvoiceNumber
                                         (email_subject emailDetails),
                                     emailDate = email_date emailDetails,
                                     fileName = structuredFileName,
                                     originalFileName = att_filename attachment,
                                     driveFileId = fileId,
                                     driveFileUrl =
                                       ''https://drive.google.com/file/d/'' @ fileId @ ''/view'',
                                     spreadsheetId = sheetId,
                                     spreadsheetRow = rowNumber,
                                     fileSize = formatFileSize (att_size attachment),
                                     mimeType = att_mimeType attachment,
                                     doc_status = ''completed''\<rparr>
                              in case saveDocument w processedDocument of
                                   Some e \<Rightarrow> (failed e, st)
                                 | None \<Rightarrow>
                                     (let st' = st\<lparr>documents :=
                                                     documents st @ [processedDocument]\<rparr>
                                      in case read_variable
                                                [(''structuredFileName'', structuredFileName)]
                                                ''structuredFilename'' of
                                           Inl e \<Rightarrow> (failed e, st')
                                         | Inr name \<Rightarrow>
                                             (Inr (Some \<lparr>res_emailId = msgId,
                                                         res_fileName = name,
                                                         res_driveFileId = fileId,
                                                         res_spreadsheetRow = rowNumber\<rparr>),
                                              st')))))))"

text \<open>The loop over the attachments: the first error leaves it.\<close>

fun process_attachments ::
  "world \<Rightarrow> store \<Rightarrow> string \<Rightarrow> string \<Rightarrow> string \<Rightarrow> EmailDetails \<Rightarrow> EmailAttachment list \<Rightarrow>
   ProcessedDocumentResult list \<Rightarrow> (string + ProcessedDocumentResult list) \<times> store" where
  "process_attachments w st msgId folderId sheetId emailDetails [] processedDocs =
     (Inr processedDocs, st)"
| "process_attachments w st msgId folderId sheetId emailDetails (a # as) processedDocs =
     (case process_attachment w st msgId folderId sheetId emailDetails a of
        (Inl e, st') \<Rightarrow> (Inl e, st')
      | (Inr None, st') \<Rightarrow>
          process_attachments w st' msgId folderId sheetId emailDetails as processedDocs
      | (Inr (Some s), st') \<Rightarrow>
          process_attachments w st' msgId folderId sheetId emailDetails as (processedDocs @ [s]))"

text \<open>
  \<^verbatim>\<open>
  const emailDetails = await this.gmailService.getEmailDetails(messageId);
  if (!emailDetails) { throw new Error('No attachments found'); }
  for (const attachment of emailDetails.attachments) { ... }
  if (processedDocs.length > 0) { await this.gmailService.labelEmail(messageId); }
  return processedDocs;
  \<close>
\<close>

definition processEmail ::
  "world \<Rightarrow> store \<Rightarrow> string \<Rightarrow> string \<Rightarrow> string \<Rightarrow>
   (string + ProcessedDocumentResult list) \<times> store" where
  "processEmail w st msgId folderId sheetId =
     (let st1 = st\<lparr>fetched := fetched st @ [msgId]\<rparr>
      in case getEmailDetails w msgId of
           Inl e \<Rightarrow> (Inl e, st1)
         | Inr None \<Rightarrow> (Inl ''No attachments found'', st1)
         | Inr (Some emailDetails) \<Rightarrow>
             (case process_attachments w st1 msgId folderId sheetId emailDetails
                     (attachments emailDetails) [] of
                (Inl e, st2) \<Rightarrow> (Inl e, st2)
              | (Inr processedDocs, st2) \<Rightarrow>
                  if length processedDocs > 0
                  then (case labelEmail w msgId of
                          Some e \<Rightarrow> (Inl e, st2)
                        | None \<Rightarrow> (Inr processedDocs, st2\<lparr>labelled := labelled st2 @ [msgId]\<rparr>))
                  else (Inr processedDocs, st2)))"

section \<open>ScannerService.scanAndProcess\<close>

text \<open>\<open>processedDocs.map((doc) => doc.emailId)\<close> over the whole table.\<close>

definition getProcessedEmailIds :: "world \<Rightarrow> store \<Rightarrow> string + string list" where
  "getProcessedEmailIds w st =
     (case findDocumentsFails w of Some e \<Rightarrow> Inl e | None \<Rightarrow> Inr (map emailId (documents st)))"

text \<open>
  \<open>Promise.all\<close> of the two provisioning calls: it rejects with the rejection that comes
  first, and when both reject the world says which that is.
\<close>

definition provision :: "world \<Rightarrow> string + (string \<times> string)" where
  "provision w =
     (case (ensureFolderExists w ''Financial Document'',
            ensureSpreadsheetExists w ''Financial Documents Log'') of
        (Inr folderId, Inr sheetId) \<Rightarrow> Inr (folderId, sheetId)
      | (Inl e, Inr sheetId) \<Rightarrow> Inl e
      | (Inr folderId, Inl e) \<Rightarrow> Inl e
      | (Inl e1, Inl e2) \<Rightarrow> Inl (if spreadsheetRejectsFirst w then e2 else e1))"

text \<open>The loop over the unprocessed messages (lines 71 to 88).\<close>

fun scan_loop ::
  "world \<Rightarrow> string \<Rightarrow> string \<Rightarrow> string list \<Rightarrow> ProcessingResult \<Rightarrow> store \<Rightarrow>
   ProcessingResult \<times> store" where
  "scan_loop w folderId sheetId [] result st = (result, st)"
| "scan_loop w folderId sheetId (m # ms) result st =
     (case processEmail w st m folderId sheetId of
        (Inr processedDocs, st') \<Rightarrow>
          scan_loop w folderId sheetId ms
            (result\<lparr>processed := processed result + 1,
                    details := details result @ processedDocs\<rparr>) st'
      | (Inl message, st') \<Rightarrow>
          scan_loop w folderId sheetId ms
            (result\<lparr>errors := errors result @ [''Email '' @ m @ '': '' @ message]\<rparr>) st')"

text \<open>Saving the log of the current run again replaces its row.\<close>

definition update_log :: "store \<Rightarrow> ScanLog \<Rightarrow> store" where
  "update_log st scanLog = st\<lparr>scanLogs := butlast (scanLogs st) @ [scanLog]\<rparr>"

definition empty_result :: ProcessingResult where
  "empty_result = \<lparr>processed = 0, errors = [], details = []\<rparr>"

definition started_log :: ScanLog where
  "started_log =
     \<lparr>status = ''started'', emailsProcessed = 0, documentsProcessed = 0, errorsCount = 0,
      errorDetails = None, completedAt = None\<rparr>"

text \<open>
  The body of the \<open>try\<close> (lines 41 to 102). \<open>Inl (message, scanLog)\<close> is an exception that
  reaches the \<open>catch\<close>, with the log object as the body has changed it by then.
\<close>

definition scan_body ::
  "world \<Rightarrow> store \<Rightarrow> ScanLog \<Rightarrow> ((string \<times> ScanLog) + ProcessingResult) \<times> store" where
  "scan_body w st scanLog =
     (case provision w of
        Inl e \<Rightarrow> (Inl (e, scanLog), st)
      | Inr (folderId, sheetId) \<Rightarrow>
          (case getProcessedEmailIds w st of
             Inl e \<Rightarrow> (Inl (e, scanLog), st)
           | Inr processedEmailIds \<Rightarrow>
               (case searchEmails w of
                  Inl e \<Rightarrow> (Inl (e, scanLog), st)
                | Inr messages \<Rightarrow>
                    (let unprocessedMessages =
                           filter (\<lambda>msg. msg \<notin> set processedEmailIds) messages
                     in if length unprocessedMessages = 0
                        then
                          (let scanLog1 = scanLog\<lparr>status := ''completed'',
                                                  completedAt := Some (now w)\<rparr>
                           in case saveScanLog w scanLog1 of
                                Some e \<Rightarrow> (Inl (e, scanLog1), st)
                              | None \<Rightarrow> (Inr empty_result, update_log st scanLog1))
                        else
                          (case scan_loop w folderId sheetId unprocessedMessages
                                  empty_result st of
                             (result, st') \<Rightarrow>
                               (let scanLog2 =
                                      scanLog\<lparr>status := ''completed'',
                                              emailsProcessed := processed result,
                                              documentsProcessed := length (details result),
                                              errorsCount := length (errors result),
                                              errorDetails :=
                                                (if length (errors result) > 0
                                                 then Some (json_stringify (errors result))
                                                 else None),
                                              completedAt := Some (now w)\<rparr>
                                in case saveScanLog w scanLog2 of
                                     Some e \<Rightarrow> (Inl (e, scanLog2), st')
                                   | None \<Rightarrow> (Inr result, update_log st' scanLog2)))))))"

text \<open>
  The whole method. The first save of the log (line 32) is outside the \<open>try\<close>: its error
  reaches the caller as it is. The \<open>catch\<close> (lines 103 to 111) marks the log failed, saves
  it and throws a new error; when that save throws, its error is the one that leaves.
\<close>

definition scanAndProcess :: "world \<Rightarrow> store \<Rightarrow> (string + ProcessingResult) \<times> store" where
  "scanAndProcess w st =
     (case saveScanLog w started_log of
        Some e \<Rightarrow> (Inl e, st)
      | None \<Rightarrow>
          (case scan_body w (st\<lparr>scanLogs := scanLogs st @ [started_log]\<rparr>) started_log of
             (Inr result, st1) \<Rightarrow> (Inr result, st1)
           | (Inl (e, scanLog), st1) \<Rightarrow>
               (let failedLog = scanLog\<lparr>status := ''failed'', errorDetails := Some e,
                                        completedAt := Some (now w)\<rparr>
                in case saveScanLog w failedLog of
                     Some e2 \<Rightarrow> (Inl e2, st1)
                   | None \<Rightarrow> (Inl (''Scan process failed: '' @ e), update_log st1 failedLog))))"

section \<open>AuthService\<close>

text \<open>
  The entity \<open>UserToken\<close> and the \<open>Credentials\<close> of the OAuth client. A field is \<open>None\<close>
  when it is \<open>null\<close> or \<open>undefined\<close>.
\<close>

record UserToken =
  userId :: string
  accessToken :: "string option"
  refreshToken :: "string option"
  tok_scope :: "string option"
  tokenType :: "string option"
  expiryDate :: "int option"

record Credentials =
  access_token :: "string option"
  refresh_token :: "string option"
  cred_scope :: "string option"
  token_type :: "string option"
  expiry_date :: "int option"

text \<open>
  What JavaScript takes for true in a condition: a string that is present and not empty;
  a number that is present and not 0.
\<close>

definition truthy_string :: "string option \<Rightarrow> bool" where
  "truthy_string x = (case x of None \<Rightarrow> False | Some s \<Rightarrow> s \<noteq> [])"

text \<open>
  The collaborators: the clock, the token endpoint behind
  \<open>oauth2Client.refreshAccessToken\<close> (answering to the credentials the client holds), and
  the repository, whose \<open>findOne\<close> inside \<open>loadTokens\<close>, \<open>findOne\<close> inside \<open>saveTokens\<close>
  and \<open>save\<close> may each throw.
\<close>

record auth_world =
  dateNow :: int
  refreshAccessToken :: "Credentials \<Rightarrow> string + Credentials"
  loadFindThrows :: bool
  saveFindThrows :: bool
  saveThrows :: "UserToken \<Rightarrow> bool"

text \<open>
  The state: the row of the user \<open>default_user\<close> in the table of tokens, the credentials
  set on the OAuth client, and the numbers of calls made so far to the token endpoint and
  to \<open>saveTokens\<close>.
\<close>

record auth_state =
  storedToken :: "UserToken option"
  clientCredentials :: Credentials
  refreshCalls :: nat
  saveTokensCalls :: nat

definition defaultUserId :: string where
  "defaultUserId = ''default_user''"

text \<open>\<open>loadTokens\<close>: the row, or \<open>null\<close> when there is none or \<open>findOne\<close> throws.\<close>

definition loadTokens :: "auth_world \<Rightarrow> auth_state \<Rightarrow> UserToken option" where
  "loadTokens w st = (if loadFindThrows w then None else storedToken st)"

text \<open>
  \<^verbatim>\<open>
  if (userToken) {
    userToken.accessToken = tokens.access_token ?? '';
    userToken.refreshToken = tokens.refresh_token || userToken.refreshToken;
    userToken.scope = tokens.scope ?? '';
    userToken.tokenType = tokens.token_type ?? '';
    userToken.expiryDate = tokens.expiry_date ?? null;
  } else { userToken = this.userTokenRepository.create({ userId: this.defaultUserId, ... }); }
  await this.userTokenRepository.save(userToken);
  \<close>
  Any error inside is rethrown as \<open>Failed to save authentication tokens\<close>.
\<close>

definition or_empty :: "string option \<Rightarrow> string option" where
  "or_empty x = (case x of None \<Rightarrow> Some [] | Some s \<Rightarrow> Some s)"

definition update_token :: "UserToken \<Rightarrow> Credentials \<Rightarrow> UserToken" where
  "update_token u tokens =
     u\<lparr>accessToken := or_empty (access_token tokens),
       refreshToken := (if truthy_string (refresh_token tokens)
                        then refresh_token tokens else refreshToken u),
       tok_scope := or_empty (cred_scope tokens),
       tokenType := or_empty (token_type tokens),
       expiryDate := expiry_date tokens\<rparr>"

definition create_token :: "Credentials \<Rightarrow> UserToken" where
  "create_token tokens =
     \<lparr>userId = defaultUserId,
      accessToken = access_token tokens,
      refreshToken = refresh_token tokens,
      tok_scope = cred_scope tokens,
      tokenType = token_type tokens,
      expiryDate = expiry_date tokens\<rparr>"

definition saveTokens ::
  "auth_world \<Rightarrow> auth_state \<Rightarrow> Credentials \<Rightarrow> (string + unit) \<times> auth_state" where
  "saveTokens w st tokens =
     (let st1 = st\<lparr>saveTokensCalls := saveTokensCalls st + 1\<rparr>
      in if saveFindThrows w then (Inl ''Failed to save authentication tokens'', st1)
         else
           (let userToken =
                  (case storedToken st1 of
                     Some u \<Rightarrow> update_token u tokens
                   | None \<Rightarrow> create_token tokens)
            in if saveThrows w userToken
               then (Inl ''Failed to save authentication tokens'', st1)
               else (Inr (), st1\<lparr>storedToken := Some userToken\<rparr>)))"

text \<open>
  \<^verbatim>\<open>
  try {
    const { credentials } = await this.oauth2Client.refreshAccessToken();
    await this.saveTokens(credentials);
    this.oauth2Client.setCredentials(credentials);
  } catch (error) { throw new Error('Failed to refresh authentication tokens'); }
  \<close>
\<close>

definition refreshTokens :: "auth_world \<Rightarrow> auth_state \<Rightarrow> (string + unit) \<times> auth_state" where
  "refreshTokens w st =
     (let st1 = st\<lparr>refreshCalls := refreshCalls st + 1\<rparr>
      in case refreshAccessToken w (clientCredentials st) of
           Inl e \<Rightarrow> (Inl ''Failed to refresh authentication tokens'', st1)
         | Inr credentials \<Rightarrow>
             (case saveTokens w st1 credentials of
                (Inl e, st2) \<Rightarrow> (Inl ''Failed to refresh authentication tokens'', st2)
              | (Inr u, st2) \<Rightarrow> (Inr (), st2\<lparr>clientCredentials := credentials\<rparr>)))"

text \<open>
  \<^verbatim>\<open>
  const userToken = await this.loadTokens();
  if (!userToken) { throw new Error('No authentication tokens found'); }
  const tokens = { access_token: userToken.accessToken, ... };
  this.oauth2Client.setCredentials(tokens);
  if (userToken.expiryDate && userToken.expiryDate <= Date.now() && userToken.refreshToken) {
    await this.refreshTokens();
  }
  return this.oauth2Client;
  \<close>
  The client returned is read through the credentials it holds.
\<close>

definition credentials_of :: "UserToken \<Rightarrow> Credentials" where
  "credentials_of userToken =
     \<lparr>access_token = accessToken userToken,
      refresh_token = refreshToken userToken,
      cred_scope = tok_scope userToken,
      token_type = tokenType userToken,
      expiry_date = expiryDate userToken\<rparr>"

definition getAuthenticated ::
  "auth_world \<Rightarrow> auth_state \<Rightarrow> (string + Credentials) \<times> auth_state" where
  "getAuthenticated w st =
     (case loadTokens w st of
        None \<Rightarrow> (Inl ''No authentication tokens found'', st)
      | Some userToken \<Rightarrow>
          (let st1 = st\<lparr>clientCredentials := credentials_of userToken\<rparr>
           in if (case expiryDate userToken of
                    None \<Rightarrow> False
                  | Some t \<Rightarrow> t \<noteq> 0 \<and> t \<le> dateNow w) \<and>
                 truthy_string (refreshToken userToken)
              then (case refreshTokens w st1 of
                      (Inl e, st2) \<Rightarrow> (Inl e, st2)
                    | (Inr u, st2) \<Rightarrow> (Inr (clientCredentials st2), st2))
              else (Inr (clientCredentials st1), st1)))"

section \<open>Example credentials\<close>

text \<open>
  A stored token that expired at 1000, with and without a refresh token; a token endpoint
  that issues a credential valid until 9000, and one that rejects the exchange; the clock
  is at 2000.
\<close>

definition token_with_refresh :: UserToken where
  "token_with_refresh =
     \<lparr>userId = ''default_user'', accessToken = Some ''old-access'',
      refreshToken = Some ''refresh-1'', tok_scope = Some ''gmail'',
      tokenType = Some ''Bearer'', expiryDate = Some 1000\<rparr>"

definition token_without_refresh :: UserToken where
  "token_without_refresh = token_with_refresh\<lparr>refreshToken := None\<rparr>"

definition fresh_credentials :: Credentials where
  "fresh_credentials =
     \<lparr>access_token = Some ''new-access'', refresh_token = None, cred_scope = Some ''gmail'',
      token_type = Some ''Bearer'', expiry_date = Some 9000\<rparr>"

definition endpoint_up :: auth_world where
  "endpoint_up =
     \<lparr>dateNow = 2000, refreshAccessToken = (\<lambda>c. Inr fresh_credentials),
      loadFindThrows = False, saveFindThrows = False, saveThrows = (\<lambda>u. False)\<rparr>"

definition endpoint_down :: auth_world where
  "endpoint_down = endpoint_up\<lparr>refreshAccessToken := (\<lambda>c. Inl ''invalid_grant'')\<rparr>"

definition auth_state_of :: "UserToken \<Rightarrow> auth_state" where
  "auth_state_of u =
     \<lparr>storedToken = Some u,
      clientCredentials = \<lparr>access_token = None, refresh_token = None, cred_scope = None,
                           token_type = None, expiry_date = None\<rparr>,
      refreshCalls = 0, saveTokensCalls = 0\<rparr>"

section \<open>The allow-list, in the words of the specification\<close>

text \<open>
  The extension of a file name is the text after its last dot; a name without a dot has
  none. The specification recognises a document by its extension, compared without
  case, in the list below.
\<close>

definition allowed_extensions :: "string list" where
  "allowed_extensions = [''pdf'', ''doc'', ''docx'', ''png'', ''jpg'', ''jpeg'', ''gif'', ''tiff'']"

definition extension_of :: "string \<Rightarrow> string option" where
  "extension_of filename =
     (if CHR ''.'' \<in> set filename then Some (split_last CHR ''.'' filename) else None)"

definition has_allowed_extension :: "string \<Rightarrow> bool" where
  "has_allowed_extension filename =
     (case extension_of filename of
        None \<Rightarrow> False
      | Some e \<Rightarrow> toLowerCase e \<in> set allowed_extensions)"

section \<open>An example mailbox\<close>

text \<open>
  Four messages with one attachment each: \<open>m1\<close> and \<open>m3\<close> carry archives, \<open>m2\<close> and \<open>m4\<close>
  carry PDF files. In the quiet world every collaborator answers, except that the
  attachment of \<open>m2\<close> cannot be downloaded; the search finds \<open>m1\<close>, \<open>m2\<close> and \<open>m3\<close>.
\<close>

definition attachment_named :: "string \<Rightarrow> EmailAttachment" where
  "attachment_named name =
     \<lparr>att_filename = name, att_attachmentId = ''att-'' @ name,
      att_mimeType = Some ''application/octet-stream'', att_size = 1536\<rparr>"

definition email_with :: "string \<Rightarrow> string \<Rightarrow> EmailDetails" where
  "email_with m name =
     \<lparr>email_id = m, email_subject = ''Invoice #4821 - March'',
      email_from = ''billing@acme.example'', email_date = ''Fri, 01 Mar 2024 10:00:00 +0000'',
      attachments = [attachment_named name]\<rparr>"

definition mailbox :: "string \<Rightarrow> string + EmailDetails option" where
  "mailbox m =
     (if m = ''m1'' then Inr (Some (email_with m ''notes.zip''))
      else if m = ''m2'' then Inr (Some (email_with m ''bill.pdf''))
      else if m = ''m3'' then Inr (Some (email_with m ''photos.zip''))
      else if m = ''m4'' then Inr (Some (email_with m ''invoice.pdf''))
      else Inl ''Failed to get email details: Not Found'')"

definition quiet_world :: world where
  "quiet_world =
     \<lparr>now = 2000, today = ''2024-03-02'', isoDate = (\<lambda>d. Some ''2024-03-01''),
      random36 = ''0.4fzyo82mvyr'',
      ensureFolderExists = (\<lambda>n. Inr ''folder-1''),
      ensureSpreadsheetExists = (\<lambda>n. Inr ''sheet-1''),
      spreadsheetRejectsFirst = False,
      findDocumentsFails = None,
      searchEmails = Inr [''m1'', ''m2'', ''m3''],
      getEmailDetails = mailbox,
      downloadAttachment =
        (\<lambda>m a. if m = ''m2'' then Inl ''Failed to download attachment: timeout''
               else Inr ''bytes''),
      uploadFile = (\<lambda>b n t f. Inr ''file-1''),
      logDocument = (\<lambda>s r. Inr 2),
      saveDocument = (\<lambda>d. None),
      labelEmail = (\<lambda>m. None),
      saveScanLog = (\<lambda>l. None)\<rparr>"

definition empty_store :: store where
  "empty_store = \<lparr>documents = [], scanLogs = [], labelled = [], fetched = []\<rparr>"

text \<open>
  Variations: a world whose log table rejects every completed log, a world whose archive
  folder cannot be provisioned, a world whose search finds \<open>m4\<close>; a store that already
  holds a document for each of \<open>m1\<close>, \<open>m2\<close> and \<open>m3\<close>.
\<close>

definition flaky_log_world :: world where
  "flaky_log_world =
     quiet_world\<lparr>saveScanLog :=
       (\<lambda>l. if status l = ''completed'' then Some ''database is down'' else None)\<rparr>"

definition folderless_world :: world where
  "folderless_world =
     quiet_world\<lparr>ensureFolderExists :=
       (\<lambda>n. Inl ''Failed to manage Drive folder: quota exceeded'')\<rparr>"

definition rescan_world :: world where
  "rescan_world = quiet_world\<lparr>searchEmails := Inr [''m4'']\<rparr>"

text \<open>The quiet world again, but every message carries a PDF file.\<close>

definition pdf_world :: world where
  "pdf_world =
     quiet_world\<lparr>getEmailDetails :=
       (\<lambda>m. Inr (Some (email_with m (if m = ''m2'' then ''bill.pdf'' else ''invoice.pdf''))))\<rparr>"

definition document_of :: "string \<Rightarrow> ProcessedDocument" where
  "document_of m =
     \<lparr>emailId = m, messageId = m, senderEmail = ''billing@acme.example'',
      senderName = ''billing'', subject = ''Invoice #4821 - March'',
      invoiceNumber = Some ''4821'', emailDate = ''Fri, 01 Mar 2024 10:00:00 +0000'',
      fileName = ''2024-03-02_undefined'', originalFileName = ''invoice.pdf'',
      driveFileId = ''file-1'',
      driveFileUrl = ''https://drive.google.com/file/d/file-1/view'',
      spreadsheetId = ''sheet-1'', spreadsheetRow = 2, fileSize = ''1.5 KB'',
      mimeType = Some ''application/octet-stream'', doc_status = ''completed''\<rparr>"

definition archived_store :: store where
  "archived_store =
     \<lparr>documents = [document_of ''m1'', document_of ''m2'', document_of ''m3''],
      scanLogs = [], labelled = [], fetched = []\<rparr>"

section \<open>A pattern's matches, in the words of the specification\<close>

text \<open>
  The pattern \<open>p\<close> occurs in the subject after the prefix \<open>pre\<close> with the digits \<open>d\<close>:
  there stands the keyword (in any case, under the flag), then separators (none unless
  the pattern allows them), then the digits, at least as many as the pattern asks for,
  and no digit after them.
\<close>

definition occurs_at :: "pattern \<Rightarrow> string \<Rightarrow> string \<Rightarrow> string \<Rightarrow> bool" where
  "occurs_at p pre d s =
     (\<exists>k sep rest. s = pre @ k @ sep @ d @ rest \<and>
        list_all2 (char_matches (ignoreCase p)) (keyword p) k \<and>
        list_all is_separator sep \<and> (separators p \<or> sep = []) \<and>
        list_all is_digit d \<and> minDigits p \<le> length d \<and>
        (rest = [] \<or> \<not> is_digit (hd rest)))"

section \<open>Properties of formatFileSize\<close>

lemma scale_loop_from_0:
  "scale_loop s 0 =
     (if s < 1024 then (s, 0)
      else if s < 1024 ^ 2 then (s / 1024, 1)
      else if s < 1024 ^ 3 then (s / 1024 ^ 2, 2)
      else if s < 1024 ^ 4 then (s / 1024 ^ 3, 3)
      else (s / 1024 ^ 4, 4))"
proof -
  have step: "\<And>x u. scale_loop x u =
      (if x \<ge> 1024 \<and> u \<le> 3 then scale_loop (x / 1024) (Suc u) else (x, u))"
    by (subst scale_loop.simps) (auto simp: units_def)
  have s1: "scale_loop s 0 = (if s < 1024 then (s, 0) else scale_loop (s / 1024) 1)"
    by (subst step) simp
  have s2: "scale_loop (s / 1024) 1 =
      (if s < 1024 ^ 2 then (s / 1024, 1) else scale_loop (s / 1024 ^ 2) 2)"
    by (subst step) (simp add: numeral_2_eq_2)
  have s3: "scale_loop (s / 1024 ^ 2) 2 =
      (if s < 1024 ^ 3 then (s / 1024 ^ 2, 2) else scale_loop (s / 1024 ^ 3) 3)"
    by (subst step) (simp add: numeral_3_eq_3)
  have s4: "scale_loop (s / 1024 ^ 3) 3 =
      (if s < 1024 ^ 4 then (s / 1024 ^ 3, 3) else scale_loop (s / 1024 ^ 4) 4)"
    by (subst step) (simp add: eval_nat_numeral)
  have s5: "scale_loop (s / 1024 ^ 4) 4 = (s / 1024 ^ 4, 4)"
    by (subst step) simp
  show ?thesis
    unfolding s1 s2 s3 s4 s5 by simp
qed

lemma of_nat_less_pow: "(of_nat n :: real) < 1024 ^ k \<longleftrightarrow> n < 1024 ^ k"
  by (metis of_nat_less_iff of_nat_numeral of_nat_power)

lemmas formatFileSize_eval =
  formatFileSize_def scale_loop_from_0 math_round_def number_to_string_def
  show_nat.simps digit_char_def unit_at_def units_def Let_def

lemma formatFileSize_examples:
  "formatFileSize 0 = ''Unknown''"
  "formatFileSize 1536 = ''1.5 KB''"
  "formatFileSize 1073741824 = ''1 GB''"
  "formatFileSize 1023 = ''1023 B''"
  "formatFileSize 1100 = ''1.07 KB''"
  by (simp_all add: formatFileSize_eval)

text \<open>
  Within the four units the formatter is the binary scaling the specification describes:
  a size between \<open>1024^k\<close> and \<open>1024^(k+1)\<close>, \<open>k < 4\<close>, is divided by \<open>1024^k\<close>, rounded to
  hundredths and followed by the \<open>k\<close>-th unit.
\<close>

lemma formatFileSize_in_range:
  assumes "k < 4" and "1024 ^ k \<le> n" and "n < 1024 ^ (k + 1)"
  shows "formatFileSize n =
     number_to_string (of_int (math_round (of_nat n / 1024 ^ k * 100)) / 100) @ '' '' @ units ! k"
proof -
  from assms(1) have "k = 0 \<or> k = 1 \<or> k = 2 \<or> k = 3" by arith
  then show ?thesis
  proof (elim disjE)
    assume "k = 0" with assms show ?thesis
      by (simp add: formatFileSize_def scale_loop_from_0 unit_at_def units_def)
  next
    assume "k = 1" with assms show ?thesis
      by (simp add: formatFileSize_def scale_loop_from_0 of_nat_less_pow unit_at_def units_def)
  next
    assume "k = 2" with assms show ?thesis
      by (simp add: formatFileSize_def scale_loop_from_0 of_nat_less_pow unit_at_def units_def)
  next
    assume "k = 3" with assms show ?thesis
      by (simp add: formatFileSize_def scale_loop_from_0 of_nat_less_pow unit_at_def units_def)
  qed
qed

text \<open>
  C7. The claim: every size is rendered with binary scaling over the units B, KB, MB and
  GB, rounded to two decimals. The loop guard \<open>unitIndex <= units.length - 1\<close> lets the
  index pass the last unit, so a size of one tebibyte is rendered with the unit
  \<open>undefined\<close>.
\<close>

theorem formatFileSize_tebibyte:
  "formatFileSize 1099511627776 = ''1 undefined''"
  by (simp add: formatFileSize_eval)

text \<open>
  C10. For a size \<open>n\<close> with \<open>0 < n < 1024^4\<close> the loop leaves a unit index inside the
  four-element array and the result ends in one of B, KB, MB, GB; for every size from
  \<open>1024^4\<close> on the index reaches 4, one past the end of the array, and the result ends
  in \<open>undefined\<close>.
\<close>

theorem formatFileSize_unit_bounds:
  "(0 < n \<and> n < 1024 ^ 4 \<longrightarrow>
      snd (scale_loop (of_nat n) 0) < length units \<and>
      (\<exists>u \<in> set units. suffix ('' '' @ u) (formatFileSize n))) \<and>
   (1024 ^ 4 \<le> n \<longrightarrow>
      snd (scale_loop (of_nat n) 0) = 4 \<and> length units = 4 \<and>
      suffix '' undefined'' (formatFileSize n))"
proof (intro conjI impI)
  assume a: "0 < n \<and> n < 1024 ^ 4"
  then show "snd (scale_loop (of_nat n) 0) < length units"
    by (simp add: scale_loop_from_0 of_nat_less_pow units_def)
  from a show "\<exists>u \<in> set units. suffix ('' '' @ u) (formatFileSize n)"
    by (simp add: formatFileSize_def scale_loop_from_0 of_nat_less_pow unit_at_def
        units_def suffix_def)
next
  assume b: "1024 ^ 4 \<le> n"
  then have nb: "\<not> n < 1024 ^ 4" "\<not> n < 1024 ^ 3" "\<not> n < 1024 ^ 2" "\<not> n < 1024" "n \<noteq> 0"
    by simp_all
  show "snd (scale_loop (of_nat n) 0) = 4"
    using nb by (simp add: scale_loop_from_0 of_nat_less_pow)
  show "length units = 4" by (simp add: units_def)
  show "suffix '' undefined'' (formatFileSize n)"
    using nb by (simp add: formatFileSize_def scale_loop_from_0 of_nat_less_pow unit_at_def
        units_def suffix_def)
qed

theorem formatFileSize_unit_bounds_witness:
  "snd (scale_loop (of_nat 1536) 0) < length units \<and>
   (\<exists>u \<in> set units. suffix ('' '' @ u) (formatFileSize 1536)) \<and>
   snd (scale_loop (of_nat 1099511627776) 0) = 4 \<and>
   suffix '' undefined'' (formatFileSize 1099511627776)"
  using formatFileSize_unit_bounds [of 1536] formatFileSize_unit_bounds [of 1099511627776]
  by simp

section \<open>Properties of AuthService\<close>

lemmas auth_examples =
  token_with_refresh_def token_without_refresh_def fresh_credentials_def
  endpoint_up_def endpoint_down_def auth_state_of_def

text \<open>
  C1, as the claim states it, fails in its second half: with an expired token and no
  refresh token \<open>getAuthenticated\<close> does not fail. It returns the client holding the
  expired credential (expiry 1000, clock 2000) and calls no refresh.
\<close>

theorem getAuthenticated_expired_no_refresh_token_returns:
  "fst (getAuthenticated endpoint_up (auth_state_of token_without_refresh)) =
     Inr (credentials_of token_without_refresh) \<and>
   expiry_date (credentials_of token_without_refresh) = Some 1000 \<and>
   dateNow endpoint_up = 2000 \<and>
   refreshCalls (snd (getAuthenticated endpoint_up (auth_state_of token_without_refresh))) = 0"
  by (simp add: getAuthenticated_def loadTokens_def truthy_string_def credentials_of_def
      auth_examples)

text \<open>
  C1, amended. For a stored token whose expiry is set, not 0 and not after the clock:
  with a refresh token, \<open>getAuthenticated\<close> calls the token endpoint exactly once; when
  the exchange and the save succeed it returns the client holding the credential the
  endpoint issued, and the row holds it too; when either fails it throws
  \<open>Failed to refresh authentication tokens\<close>. Without a refresh token it returns the
  client holding the stored, expired credential, and the state changes in nothing but
  the client's credentials: no refresh is called and no error is raised.
\<close>

theorem getAuthenticated_expired:
  assumes "\<not> loadFindThrows w" and "storedToken st = Some u"
    and "expiryDate u = Some t" and "t \<noteq> 0" and "t \<le> dateNow w"
  shows "(truthy_string (refreshToken u) \<longrightarrow>
            refreshCalls (snd (getAuthenticated w st)) = refreshCalls st + 1 \<and>
            (case refreshAccessToken w (credentials_of u) of
               Inl e \<Rightarrow>
                 fst (getAuthenticated w st) = Inl ''Failed to refresh authentication tokens''
             | Inr c \<Rightarrow>
                 if saveFindThrows w \<or> saveThrows w (update_token u c)
                 then fst (getAuthenticated w st) =
                        Inl ''Failed to refresh authentication tokens''
                 else fst (getAuthenticated w st) = Inr c \<and>
                      storedToken (snd (getAuthenticated w st)) = Some (update_token u c))) \<and>
         (\<not> truthy_string (refreshToken u) \<longrightarrow>
            getAuthenticated w st =
              (Inr (credentials_of u), st\<lparr>clientCredentials := credentials_of u\<rparr>))"
  using assms
  by (auto simp: getAuthenticated_def loadTokens_def refreshTokens_def saveTokens_def
      Let_def split: sum.splits prod.splits)

theorem getAuthenticated_expired_witness:
  "refreshCalls (snd (getAuthenticated endpoint_up (auth_state_of token_with_refresh))) = 1 \<and>
   fst (getAuthenticated endpoint_up (auth_state_of token_with_refresh)) =
     Inr fresh_credentials \<and>
   expiry_date fresh_credentials = Some 9000 \<and>
   fst (getAuthenticated endpoint_down (auth_state_of token_with_refresh)) =
     Inl ''Failed to refresh authentication tokens'' \<and>
   getAuthenticated endpoint_up (auth_state_of token_without_refresh) =
     (Inr (credentials_of token_without_refresh),
      (auth_state_of token_without_refresh)
        \<lparr>clientCredentials := credentials_of token_without_refresh\<rparr>)"
proof -
  have up: "\<not> loadFindThrows endpoint_up" and down: "\<not> loadFindThrows endpoint_down"
    by (simp_all add: auth_examples)
  have late: "(1000::int) \<noteq> 0" "1000 \<le> dateNow endpoint_up" "1000 \<le> dateNow endpoint_down"
    by (simp_all add: auth_examples)
  have a: "storedToken (auth_state_of token_with_refresh) = Some token_with_refresh"
    and b: "storedToken (auth_state_of token_without_refresh) = Some token_without_refresh"
    by (simp_all add: auth_examples)
  have ea: "expiryDate token_with_refresh = Some 1000"
    and eb: "expiryDate token_without_refresh = Some 1000"
    by (simp_all add: auth_examples)
  note one = getAuthenticated_expired [OF up a ea late(1) late(2)]
  note two = getAuthenticated_expired [OF down a ea late(1) late(3)]
  note three = getAuthenticated_expired [OF up b eb late(1) late(2)]
  show ?thesis
    using one two three
    by (simp add: auth_examples truthy_string_def credentials_of_def)
qed

text \<open>
  C4. When the token exchange of a refresh fails, \<open>refreshTokens\<close> throws
  \<open>Failed to refresh authentication tokens\<close>; the stored row is as it was and
  \<open>saveTokens\<close> has not been entered: nothing changes but the count of calls to the
  endpoint.
\<close>

theorem refreshTokens_exchange_fails:
  assumes "refreshAccessToken w (clientCredentials st) = Inl e"
  shows "refreshTokens w st =
           (Inl ''Failed to refresh authentication tokens'',
            st\<lparr>refreshCalls := refreshCalls st + 1\<rparr>) \<and>
         storedToken (snd (refreshTokens w st)) = storedToken st \<and>
         saveTokensCalls (snd (refreshTokens w st)) = saveTokensCalls st"
  using assms by (simp add: refreshTokens_def)

theorem refreshTokens_exchange_fails_witness:
  "refreshTokens endpoint_down (auth_state_of token_with_refresh) =
     (Inl ''Failed to refresh authentication tokens'',
      (auth_state_of token_with_refresh)\<lparr>refreshCalls := 1\<rparr>) \<and>
   storedToken (snd (refreshTokens endpoint_down (auth_state_of token_with_refresh))) =
     Some token_with_refresh \<and>
   saveTokensCalls (snd (refreshTokens endpoint_down (auth_state_of token_with_refresh))) = 0"
proof -
  have "refreshAccessToken endpoint_down (clientCredentials (auth_state_of token_with_refresh)) =
          Inl ''invalid_grant''"
    by (simp add: auth_examples)
  from refreshTokens_exchange_fails [OF this] show ?thesis
    by (simp add: auth_examples)
qed

text \<open>
  Through \<open>getAuthenticated\<close> the same holds: when the refresh it starts is rejected by the
  endpoint, the error leaves, and the state differs from the one before in the
  credentials set on the client and the count of refresh calls only.
\<close>

lemma getAuthenticated_refresh_fails:
  assumes "\<not> loadFindThrows w" and "storedToken st = Some u"
    and "expiryDate u = Some t" and "t \<noteq> 0" and "t \<le> dateNow w"
    and "truthy_string (refreshToken u)"
    and "refreshAccessToken w (credentials_of u) = Inl e"
  shows "getAuthenticated w st =
           (Inl ''Failed to refresh authentication tokens'',
            st\<lparr>clientCredentials := credentials_of u, refreshCalls := refreshCalls st + 1\<rparr>)"
  using assms
  by (simp add: getAuthenticated_def loadTokens_def refreshTokens_def)

section \<open>Properties of isDocumentFile\<close>

lemma toLowerCase_char_dot: "toLowerCase_char c = CHR ''.'' \<longleftrightarrow> c = CHR ''.''"
  by (simp add: toLowerCase_char_def upper_letters_def lower_letters_def latin1_capitals_def
      latin1_smalls_def)

lemma toLowerCase_char_dot_sym: "CHR ''.'' = toLowerCase_char c \<longleftrightarrow> c = CHR ''.''"
  using toLowerCase_char_dot [of c] by auto

lemma toLowerCase_no_dot: "CHR ''.'' \<in> set (toLowerCase s) \<longleftrightarrow> CHR ''.'' \<in> set s"
  by (induction s) (auto simp: toLowerCase_def toLowerCase_char_dot_sym)

lemma lastIndexOf_from_absent:
  "c \<notin> set xs \<Longrightarrow> lastIndexOf_from xs c i found = found"
  by (induction xs arbitrary: i found) auto

lemma lastIndexOf_from_append:
  "lastIndexOf_from (xs @ ys) c i found =
   lastIndexOf_from ys c (i + int (length xs)) (lastIndexOf_from xs c i found)"
  by (induction xs arbitrary: i found) (auto simp: algebra_simps)

lemma lastIndexOf_last:
  "c \<notin> set zs \<Longrightarrow> lastIndexOf (xs @ c # zs) c = int (length xs)"
  by (simp add: lastIndexOf_def lastIndexOf_from_append lastIndexOf_from_absent)

lemma lastIndexOf_absent: "c \<notin> set s \<Longrightarrow> lastIndexOf s c = - 1"
  by (simp add: lastIndexOf_def lastIndexOf_from_absent)

lemma split_last_decompose:
  "c \<notin> set zs \<Longrightarrow> split_last c (xs @ c # zs) = zs"
proof -
  assume a: "c \<notin> set zs"
  then have "takeWhile (\<lambda>x. x \<noteq> c) (rev zs @ c # rev xs) = rev zs"
    by (simp add: takeWhile_append)  
  then show ?thesis by (simp add: split_last_def)
qed

lemma documentExtensions_dotted:
  "e \<in> set documentExtensions \<longleftrightarrow> (\<exists>x \<in> set allowed_extensions. e = CHR ''.'' # x)"
  by (auto simp: documentExtensions_def allowed_extensions_def)

lemma isDocumentFile_iff: "isDocumentFile filename \<longleftrightarrow> has_allowed_extension filename"
proof (cases "CHR ''.'' \<in> set filename")
  case False
  then have "CHR ''.'' \<notin> set (toLowerCase filename)" by (simp add: toLowerCase_no_dot)
  then have "toLowerCase filename \<notin> set documentExtensions"
    by (auto simp: documentExtensions_dotted)
  with False show ?thesis
    by (simp add: isDocumentFile_def lastIndexOf_absent substring_def
        has_allowed_extension_def extension_of_def)
next
  case True
  then obtain xs zs where f: "filename = xs @ CHR ''.'' # zs" and z: "CHR ''.'' \<notin> set zs"
    by (meson split_list_last)
  have "substring (toLowerCase filename) (lastIndexOf filename CHR ''.'') =
        CHR ''.'' # toLowerCase zs"
    using z by (simp add: f lastIndexOf_last substring_def toLowerCase_def toLowerCase_char_dot)
  moreover have "extension_of filename = Some zs"
    using z by (simp add: f extension_of_def split_last_decompose)
  ultimately show ?thesis
    by (auto simp: isDocumentFile_def has_allowed_extension_def documentExtensions_dotted)
qed

section \<open>Properties of the per-email pipeline\<close>

lemma read_variable_structuredFilename:
  "read_variable [(''structuredFileName'', v)] ''structuredFilename'' =
     Inl ''structuredFilename is not defined''"
  by (simp add: read_variable_def)

lemma process_attachment_skip:
  "\<not> isDocumentFile (att_filename a) \<Longrightarrow> process_attachment w st m f s d a = (Inr None, st)"
  by (simp add: process_attachment_def)

lemma process_attachment_cases:
  assumes "process_attachment w st m f s d a = (r, st')"
  shows "(r = Inr None \<and> st' = st \<and> \<not> isDocumentFile (att_filename a)) \<or>
         (\<exists>e. r = Inl e \<and> isDocumentFile (att_filename a) \<and>
              (st' = st \<or> (\<exists>doc. st' = st\<lparr>documents := documents st @ [doc]\<rparr> \<and> emailId doc = m)))"
  using assms
  by (auto simp: process_attachment_def Let_def read_variable_structuredFilename
      split: if_splits sum.splits option.splits)

lemma process_attachment_outcome:
  "fst (process_attachment w st m f s d a) = fst (process_attachment w st0 m f s d a)"
  by (simp add: process_attachment_def Let_def read_variable_structuredFilename
      split: if_splits sum.splits option.splits)

lemma process_attachments_cases:
  assumes "process_attachments w st m f s d as docs = (r, st')"
  shows "(r = Inr docs \<and> st' = st \<and> (\<forall>a \<in> set as. \<not> isDocumentFile (att_filename a))) \<or>
         (\<exists>e. r = Inl e \<and> (\<exists>a \<in> set as. isDocumentFile (att_filename a)) \<and>
              (st' = st \<or> (\<exists>doc. st' = st\<lparr>documents := documents st @ [doc]\<rparr> \<and> emailId doc = m)))"
  using assms
proof (induction as arbitrary: st docs)
  case Nil
  then show ?case by simp
next
  case (Cons a as)
  obtain r1 st1 where step: "process_attachment w st m f s d a = (r1, st1)"
    by (cases "process_attachment w st m f s d a")
  from process_attachment_cases [OF step] show ?case
  proof (elim disjE conjE exE)
    assume "r1 = Inr None" "st1 = st" "\<not> isDocumentFile (att_filename a)"
    with step Cons.prems have "process_attachments w st m f s d as docs = (r, st')"
      by simp
    from Cons.IH [OF this] \<open>\<not> isDocumentFile (att_filename a)\<close> show ?thesis
      by auto
  next
    fix e assume "r1 = Inl e" "isDocumentFile (att_filename a)" "st1 = st"
    with step Cons.prems show ?thesis by auto
  next
    fix e doc assume "r1 = Inl e" "isDocumentFile (att_filename a)"
      "st1 = st\<lparr>documents := documents st @ [doc]\<rparr>" "emailId doc = m"
    with step Cons.prems show ?thesis by auto
  qed
qed

lemma process_attachments_outcome:
  "fst (process_attachments w st m f s d as docs) =
   fst (process_attachments w st0 m f s d as docs)"
proof (induction as arbitrary: st st0 docs)
  case Nil
  show ?case by simp
next
  case (Cons a as)
  obtain r1 st1 where a: "process_attachment w st m f s d a = (r1, st1)"
    by (cases "process_attachment w st m f s d a")
  obtain r2 st2 where b: "process_attachment w st0 m f s d a = (r2, st2)"
    by (cases "process_attachment w st0 m f s d a")
  from a b process_attachment_outcome [of w st m f s d a st0] have eq: "r2 = r1" by simp
  show ?case
    using a b eq
    by (auto split: sum.splits option.splits simp: Cons.IH [of st1 _ st2])
qed

lemma processEmail_cases:
  assumes "processEmail w st m f s = (r, st')"
  shows "(r = Inr [] \<and> st' = st\<lparr>fetched := fetched st @ [m]\<rparr>) \<or>
         (\<exists>e. r = Inl e \<and>
              (st' = st\<lparr>fetched := fetched st @ [m]\<rparr> \<or>
               (\<exists>doc. st' = st\<lparr>fetched := fetched st @ [m],
                                 documents := documents st @ [doc]\<rparr> \<and> emailId doc = m)))"
proof (cases "getEmailDetails w m")
  case (Inl e)
  with assms show ?thesis by (auto simp: processEmail_def)
next
  case (Inr od)
  show ?thesis
  proof (cases od)
    case None
    with Inr assms show ?thesis by (auto simp: processEmail_def)
  next
    case (Some d)
    obtain r1 st1 where pa:
      "process_attachments w (st\<lparr>fetched := fetched st @ [m]\<rparr>) m f s d (attachments d) [] = (r1, st1)"
      by (cases "process_attachments w (st\<lparr>fetched := fetched st @ [m]\<rparr>) m f s d (attachments d) []")
    from process_attachments_cases [OF pa] Inr Some assms pa show ?thesis
      by (auto simp: processEmail_def Let_def)
  qed
qed

lemma processEmail_outcome:
  "fst (processEmail w st m f s) = fst (processEmail w st0 m f s)"
proof (cases "getEmailDetails w m")
  case (Inl e)
  then show ?thesis by (simp add: processEmail_def)
next
  case (Inr od)
  show ?thesis
  proof (cases od)
    case None
    with Inr show ?thesis by (simp add: processEmail_def)
  next
    case (Some d)
    obtain r1 st1 where a:
      "process_attachments w (st\<lparr>fetched := fetched st @ [m]\<rparr>) m f s d (attachments d) [] = (r1, st1)"
      by (cases "process_attachments w (st\<lparr>fetched := fetched st @ [m]\<rparr>) m f s d (attachments d) []")
    obtain r2 st2 where b:
      "process_attachments w (st0\<lparr>fetched := fetched st0 @ [m]\<rparr>) m f s d (attachments d) [] = (r2, st2)"
      by (cases "process_attachments w (st0\<lparr>fetched := fetched st0 @ [m]\<rparr>) m f s d (attachments d) []")
    from a b process_attachments_outcome
      [of w "st\<lparr>fetched := fetched st @ [m]\<rparr>" m f s d "attachments d" "[]"
          "st0\<lparr>fetched := fetched st0 @ [m]\<rparr>"]
    have eq: "r2 = r1" by simp
    show ?thesis
      using Inr Some a b eq
      by (cases r1) (auto simp: processEmail_def Let_def split: option.splits)
  qed
qed

lemma scan_loop_effect:
  assumes "scan_loop w f s ms r st = (r', st')"
  shows "processed r' =
           processed r + length (filter (\<lambda>m. \<not> isl (fst (processEmail w st0 m f s))) ms) \<and>
         errors r' =
           errors r @
           concat (map (\<lambda>m. case fst (processEmail w st0 m f s) of
                                Inl e \<Rightarrow> [''Email '' @ m @ '': '' @ e]
                              | Inr ds \<Rightarrow> []) ms) \<and>
         details r' = details r \<and>
         fetched st' = fetched st @ ms \<and>
         labelled st' = labelled st \<and>
         scanLogs st' = scanLogs st \<and>
         (\<exists>new. documents st' = documents st @ new \<and> set (map emailId new) \<subseteq> set ms)"
  using assms
proof (induction ms arbitrary: r st)
  case Nil
  then show ?case by simp
next
  case (Cons m ms)
  obtain r1 st1 where step: "processEmail w st m f s = (r1, st1)"
    by (cases "processEmail w st m f s")
  have out: "fst (processEmail w st0 m f s) = r1"
    using step processEmail_outcome [of w st0 m f s st] by simp
  from processEmail_cases [OF step] show ?case
  proof (elim disjE conjE exE)
    assume r1: "r1 = Inr []" and st1: "st1 = st\<lparr>fetched := fetched st @ [m]\<rparr>"
    with step Cons.prems
    have "scan_loop w f s ms (r\<lparr>processed := processed r + 1, details := details r @ []\<rparr>) st1 = (r', st')"
      by simp
    from Cons.IH [OF this] r1 st1 out show ?thesis by auto
  next
    fix e assume r1: "r1 = Inl e" and st1: "st1 = st\<lparr>fetched := fetched st @ [m]\<rparr>"
    with step Cons.prems
    have "scan_loop w f s ms (r\<lparr>errors := errors r @ [''Email '' @ m @ '': '' @ e]\<rparr>) st1 = (r', st')"
      by simp
    from Cons.IH [OF this] r1 st1 out show ?thesis by auto
  next
    fix e doc assume r1: "r1 = Inl e"
      and st1: "st1 = st\<lparr>fetched := fetched st @ [m], documents := documents st @ [doc]\<rparr>"
      and doc: "emailId doc = m"
    with step Cons.prems
    have "scan_loop w f s ms (r\<lparr>errors := errors r @ [''Email '' @ m @ '': '' @ e]\<rparr>) st1 = (r', st')"
      by simp
    from Cons.IH [OF this] r1 st1 out doc show ?thesis by auto blast
  qed
qed

section \<open>The example mailbox, evaluated\<close>

lemmas chars_eval = is_digit_def is_space_def is_alnum_def lower_letters_def upper_letters_def
  latin1_capitals_def latin1_smalls_def toLowerCase_char_def toLowerCase_def
  toUpperCase_char_def toUpperCase_def is_separator_def char_matches_def
  is_base36_digit_def is_upper_alnum_def
lemmas strings_eval = lastIndexOf_def substring_def substr_def split_first_def split_last_def trim_def
lemmas patterns_eval = match_at_def keyword_pattern_def hash_pattern_def digits4_pattern_def
  DriveService_patterns_def ScannerService_patterns_def DriveService_extractInvoiceNumber_def
  ScannerService_extractInvoiceNumber_def

lemma example_files:
  "\<not> isDocumentFile ''notes.zip''" "\<not> isDocumentFile ''photos.zip''"
  "isDocumentFile ''bill.pdf''" "isDocumentFile ''invoice.pdf''"
  by (simp_all add: isDocumentFile_def documentExtensions_def chars_eval strings_eval)

lemmas world_eval =
  quiet_world_def mailbox_def email_with_def attachment_named_def empty_store_def

lemma m1: "processEmail quiet_world st ''m1'' f s = (Inr [], st\<lparr>fetched := fetched st @ [''m1'']\<rparr>)"
  by (simp add: processEmail_def world_eval process_attachment_def example_files)
lemma m3: "processEmail quiet_world st ''m3'' f s = (Inr [], st\<lparr>fetched := fetched st @ [''m3'']\<rparr>)"
  by (simp add: processEmail_def world_eval process_attachment_def example_files)
lemma m2: "processEmail quiet_world st ''m2'' f s = 
   (Inl ''Failed to process attachment bill.pdf: Failed to download attachment: timeout'', st\<lparr>fetched := fetched st @ [''m2'']\<rparr>)"
  by (simp add: processEmail_def world_eval process_attachment_def example_files)

lemma generated_name:
  "generateStructuredFilename isoD t r sender subj d None = t @ ''_undefined''"
  by (simp add: generateStructuredFilename_def Let_def split: option.splits)

lemma m4: "fst (processEmail quiet_world st ''m4'' f s) = 
   Inl ''Failed to process attachment invoice.pdf: structuredFilename is not defined''"
  "documents (snd (processEmail quiet_world st ''m4'' f s)) = documents st @ 
      [\<lparr>emailId = ''m4'', messageId = ''m4'',
         senderEmail = ''billing@acme.example'', senderName = ''billing'',
         subject = ''Invoice #4821 - March'', invoiceNumber = Some ''4821'',
         emailDate = ''Fri, 01 Mar 2024 10:00:00 +0000'',
         fileName = ''2024-03-02_undefined'',
         originalFileName = ''invoice.pdf'', driveFileId = ''file-1'',
         driveFileUrl = ''https://drive.google.com/file/d/file-1/view'',
         spreadsheetId = s, spreadsheetRow = 2,
         fileSize = ''1.5 KB'', mimeType = Some ''application/octet-stream'',
         doc_status = ''completed''\<rparr>]"
  by (simp_all add: processEmail_def world_eval process_attachment_def example_files generated_name
     read_variable_def formatFileSize_examples extractSenderName_def chars_eval strings_eval patterns_eval)

lemma quiet_fields:
  "now quiet_world = 2000"
  "ensureFolderExists quiet_world = (\<lambda>n. Inr ''folder-1'')"
  "ensureSpreadsheetExists quiet_world = (\<lambda>n. Inr ''sheet-1'')"
  "findDocumentsFails quiet_world = None"
  "searchEmails quiet_world = Inr [''m1'', ''m2'', ''m3'']"
  "saveScanLog quiet_world = (\<lambda>l. None)"
  by (simp_all add: quiet_world_def)

section \<open>Properties of scanAndProcess\<close>

lemma update_log_frame:
  "documents (update_log st l) = documents st"
  "fetched (update_log st l) = fetched st"
  "labelled (update_log st l) = labelled st"
  by (simp_all add: update_log_def)

lemma scan_body_effect:
  assumes "scan_body w st l = (x, st')"
  shows "\<exists>ms new. fetched st' = fetched st @ ms \<and>
           set ms \<inter> emailId ` set (documents st) = {} \<and>
           documents st' = documents st @ new \<and> labelled st' = labelled st"
proof (cases "provision w")
  case (Inl e)
  with assms show ?thesis by (auto simp: scan_body_def)
next
  case (Inr p)
  obtain fid sid where p: "p = (fid, sid)" by (cases p)
  show ?thesis
  proof (cases "findDocumentsFails w")
    case (Some e)
    with assms Inr p show ?thesis by (auto simp: scan_body_def getProcessedEmailIds_def)
  next
    case None
    show ?thesis
    proof (cases "searchEmails w")
      case (Inl e)
      with assms Inr p None show ?thesis by (auto simp: scan_body_def getProcessedEmailIds_def)
    next
      case Inr2: (Inr messages)
      define ms where "ms = filter (\<lambda>msg. msg \<notin> emailId ` set (documents st)) messages"
      have disjoint: "set ms \<inter> emailId ` set (documents st) = {}"
        by (auto simp: ms_def)
      show ?thesis
      proof (cases "ms = []")
        case True
        with assms Inr p None Inr2 show ?thesis
          by (auto simp: scan_body_def getProcessedEmailIds_def ms_def Let_def update_log_frame
              split: option.splits)
      next
        case False
        obtain r1 st1 where loop: "scan_loop w fid sid ms empty_result st = (r1, st1)"
          by (cases "scan_loop w fid sid ms empty_result st")
        from scan_loop_effect [OF loop, of st]
        have eff: "fetched st1 = fetched st @ ms" "labelled st1 = labelled st"
          "\<exists>new. documents st1 = documents st @ new" by auto
        from assms Inr p None Inr2 False loop
        have "st' = st1 \<or> (\<exists>l'. st' = update_log st1 l')"
          by (auto simp: scan_body_def getProcessedEmailIds_def ms_def [symmetric] Let_def
              split: option.splits)
        with eff disjoint show ?thesis
          by (auto simp: update_log_frame)
      qed
    qed
  qed
qed

lemma scanAndProcess_effect:
  assumes "scanAndProcess w st = (x, st')"
  shows "\<exists>ms new. fetched st' = fetched st @ ms \<and>
           set ms \<inter> emailId ` set (documents st) = {} \<and>
           documents st' = documents st @ new \<and> labelled st' = labelled st"
proof (cases "saveScanLog w started_log")
  case (Some e)
  with assms show ?thesis by (auto simp: scanAndProcess_def)
next
  case None
  obtain y st1 where body:
    "scan_body w (st\<lparr>scanLogs := scanLogs st @ [started_log]\<rparr>) started_log = (y, st1)"
    by (cases "scan_body w (st\<lparr>scanLogs := scanLogs st @ [started_log]\<rparr>) started_log")
  from scan_body_effect [OF body] obtain ms new where
    eff: "fetched st1 = fetched st @ ms" "set ms \<inter> emailId ` set (documents st) = {}"
      "documents st1 = documents st @ new" "labelled st1 = labelled st"
    by auto
  from assms None body have "st' = st1 \<or> (\<exists>l'. st' = update_log st1 l')"
    by (auto simp: scanAndProcess_def Let_def split: sum.splits option.splits prod.splits)
  with eff show ?thesis
    by (auto simp: update_log_frame)
qed

lemma process_attachment_saveScanLog:
  "process_attachment (w\<lparr>saveScanLog := g\<rparr>) st m f s d a = process_attachment w st m f s d a"
  by (simp add: process_attachment_def Let_def cong: sum.case_cong option.case_cong)

lemma process_attachments_saveScanLog:
  "process_attachments (w\<lparr>saveScanLog := g\<rparr>) st m f s d as docs =
   process_attachments w st m f s d as docs"
  by (induction as arbitrary: st docs)
    (auto simp: process_attachment_saveScanLog split: sum.splits option.splits prod.splits)

lemma processEmail_saveScanLog:
  "processEmail (w\<lparr>saveScanLog := g\<rparr>) st m f s = processEmail w st m f s"
  by (auto simp: processEmail_def process_attachments_saveScanLog Let_def
      split: sum.splits option.splits prod.splits)

text \<open>
  The first save of the log is outside the \<open>try\<close>: when it fails, its error leaves as it
  is and nothing is stored, not even a failed run.
\<close>

lemma scan_first_save_fails:
  "saveScanLog w started_log = Some e \<Longrightarrow> scanAndProcess w st = (Inl e, st)"
  by (simp add: scanAndProcess_def)

text \<open>
  C8. An attachment whose file name has no extension of the allow-list (pdf, doc, docx,
  png, jpg, jpeg, gif, tiff, compared without case) is skipped: no error, no document,
  the store as it was. An email whose attachments are all skipped yields no document and
  is not marked processed: the pipeline returns the empty list, and the store changes in
  nothing but the record of the fetch.
\<close>

theorem non_document_attachments_are_skipped:
  "(\<not> has_allowed_extension (att_filename a) \<longrightarrow>
      process_attachment w st m f s d a = (Inr None, st)) \<and>
   (getEmailDetails w m = Inr (Some d) \<and>
    (\<forall>a \<in> set (attachments d). \<not> has_allowed_extension (att_filename a)) \<longrightarrow>
      processEmail w st m f s = (Inr [], st\<lparr>fetched := fetched st @ [m]\<rparr>))"
proof (intro conjI impI)
  assume "\<not> has_allowed_extension (att_filename a)"
  then show "process_attachment w st m f s d a = (Inr None, st)"
    by (simp add: process_attachment_skip isDocumentFile_iff)
next
  assume a: "getEmailDetails w m = Inr (Some d) \<and>
    (\<forall>a \<in> set (attachments d). \<not> has_allowed_extension (att_filename a))"
  have skip: "\<And>as st0 docs. \<forall>a \<in> set as. \<not> has_allowed_extension (att_filename a) \<Longrightarrow>
      process_attachments w st0 m f s d as docs = (Inr docs, st0)"
  proof -
    fix as st0 docs
    show "\<forall>a \<in> set as. \<not> has_allowed_extension (att_filename a) \<Longrightarrow>
      process_attachments w st0 m f s d as docs = (Inr docs, st0)"
      by (induction as) (simp_all add: process_attachment_skip isDocumentFile_iff)
  qed
  from a show "processEmail w st m f s = (Inr [], st\<lparr>fetched := fetched st @ [m]\<rparr>)"
    by (simp add: processEmail_def skip)
qed

theorem non_document_attachments_are_skipped_witness:
  "process_attachment quiet_world empty_store ''m1'' ''folder-1'' ''sheet-1''
     (email_with ''m1'' ''notes.zip'') (attachment_named ''notes.zip'') =
     (Inr None, empty_store) \<and>
   processEmail quiet_world empty_store ''m1'' ''folder-1'' ''sheet-1'' =
     (Inr [], \<lparr>documents = [], scanLogs = [], labelled = [], fetched = [''m1'']\<rparr>)"
proof -
  have ext: "\<not> has_allowed_extension ''notes.zip''"
    by (simp add: has_allowed_extension_def extension_of_def allowed_extensions_def
        chars_eval strings_eval)
  have d: "getEmailDetails quiet_world ''m1'' = Inr (Some (email_with ''m1'' ''notes.zip''))"
    by (simp add: world_eval)
  from ext non_document_attachments_are_skipped
    [of "attachment_named ''notes.zip''" quiet_world empty_store "''m1''" "''folder-1''"
        "''sheet-1''" "email_with ''m1'' ''notes.zip''"] d
  show ?thesis
    by (simp add: attachment_named_def email_with_def empty_store_def)
qed

text \<open>
  C2, as the claim states it, fails: the error string is not the message prefixed by the
  email's identifier. In the quiet world, where only the attachment of \<open>m2\<close> cannot be
  downloaded, the scan counts two processed emails and records one error, which starts
  with the word \<open>Email\<close>.
\<close>

theorem scan_isolates_failures_counterexample:
  "fst (scanAndProcess quiet_world empty_store) =
     Inr \<lparr>processed = 2,
          errors = [''Email m2: Failed to process attachment bill.pdf: Failed to download attachment: timeout''],
          details = []\<rparr> \<and>
   \<not> prefix ''m2''
       ''Email m2: Failed to process attachment bill.pdf: Failed to download attachment: timeout''"
  by (simp add: scanAndProcess_def scan_body_def provision_def getProcessedEmailIds_def m1 m2 m3
      update_log_def started_log_def empty_result_def quiet_fields empty_store_def)

text \<open>
  C2, amended. The loop over the unprocessed emails isolates each failure: its error
  list grows by \<open>Email <id>: <message>\<close> for exactly the emails whose pipeline fails,
  in their order; the success counter grows by the number of emails whose pipeline
  succeeds; and every email of the list is fetched, whatever happened to the ones before
  it. (The outcome of an email's pipeline does not depend on the store:
  \<open>processEmail_outcome\<close>.)
\<close>

theorem scan_loop_isolates_failures:
  assumes "scan_loop w f s ms r st = (r', st')"
  shows "errors r' =
           errors r @
           concat (map (\<lambda>m. case fst (processEmail w st m f s) of
                                Inl e \<Rightarrow> [''Email '' @ m @ '': '' @ e]
                              | Inr ds \<Rightarrow> []) ms) \<and>
         processed r' =
           processed r + length (filter (\<lambda>m. \<not> isl (fst (processEmail w st m f s))) ms) \<and>
         fetched st' = fetched st @ ms"
  using scan_loop_effect [OF assms, of st] by simp

theorem scan_loop_isolates_failures_witness:
  "errors (fst (scan_loop quiet_world ''folder-1'' ''sheet-1'' [''m1'', ''m2'', ''m3'']
                  empty_result empty_store)) =
     [''Email m2: Failed to process attachment bill.pdf: Failed to download attachment: timeout''] \<and>
   processed (fst (scan_loop quiet_world ''folder-1'' ''sheet-1'' [''m1'', ''m2'', ''m3'']
                     empty_result empty_store)) = 2 \<and>
   fetched (snd (scan_loop quiet_world ''folder-1'' ''sheet-1'' [''m1'', ''m2'', ''m3'']
                   empty_result empty_store)) = [''m1'', ''m2'', ''m3'']"
  using scan_loop_isolates_failures
    [of quiet_world "''folder-1''" "''sheet-1''" "[''m1'', ''m2'', ''m3'']" empty_result
        empty_store
        "fst (scan_loop quiet_world ''folder-1'' ''sheet-1'' [''m1'', ''m2'', ''m3'']
                empty_result empty_store)"
        "snd (scan_loop quiet_world ''folder-1'' ''sheet-1'' [''m1'', ''m2'', ''m3'']
                empty_result empty_store)"]
  by (simp add: m1 m2 m3 empty_result_def empty_store_def)

text \<open>
  C3, as the claim states it, fails for the writes of the run log: when the save of the
  completed log after the loop fails, the run is marked failed with the counters of the
  loop (one error here), and the three emails have been processed.
\<close>

theorem scan_failed_after_the_loop:
  "fst (scanAndProcess flaky_log_world empty_store) =
     Inl ''Scan process failed: database is down'' \<and>
   scanLogs (snd (scanAndProcess flaky_log_world empty_store)) =
     [\<lparr>status = ''failed'', emailsProcessed = 2, documentsProcessed = 0, errorsCount = 1,
       errorDetails = Some ''database is down'', completedAt = Some 2000\<rparr>] \<and>
   fetched (snd (scanAndProcess flaky_log_world empty_store)) = [''m1'', ''m2'', ''m3'']"
proof -
  have fields:
    "now flaky_log_world = 2000"
    "ensureFolderExists flaky_log_world = (\<lambda>n. Inr ''folder-1'')"
    "ensureSpreadsheetExists flaky_log_world = (\<lambda>n. Inr ''sheet-1'')"
    "findDocumentsFails flaky_log_world = None"
    "searchEmails flaky_log_world = Inr [''m1'', ''m2'', ''m3'']"
    "saveScanLog flaky_log_world =
       (\<lambda>l. if status l = ''completed'' then Some ''database is down'' else None)"
    by (simp_all add: flaky_log_world_def quiet_world_def)
  have same: "\<And>st m f s. processEmail flaky_log_world st m f s = processEmail quiet_world st m f s"
    by (simp add: flaky_log_world_def processEmail_saveScanLog)
  show ?thesis
    by (simp add: scanAndProcess_def scan_body_def provision_def getProcessedEmailIds_def
        same m1 m2 m3 update_log_def started_log_def empty_result_def fields empty_store_def)
qed

text \<open>
  C3, amended. When provisioning the archive folder or the ledger fails, or loading the
  processed identifiers, or the mail search, or (no email being new) the save of the
  completed log, and the first save of the log and the save of the failed log succeed:
  the scan throws \<open>Scan process failed: <message>\<close>, and the store is the one before
  the scan with one log more, failed, holding the causing message and every counter 0.
  No document, label or fetch is added: no email is processed.
\<close>

theorem scan_fails_before_the_loop:
  assumes first: "saveScanLog w started_log = None"
    and cause:
      "provision w = Inl e \<or>
       (\<exists>p. provision w = Inr p \<and>
          (findDocumentsFails w = Some e \<or>
           (findDocumentsFails w = None \<and>
            (searchEmails w = Inl e \<or>
             (\<exists>messages. searchEmails w = Inr messages \<and>
                set messages \<subseteq> emailId ` set (documents st) \<and>
                saveScanLog w (started_log\<lparr>status := ''completed'',
                                           completedAt := Some (now w)\<rparr>) = Some e)))))"
    and last: "saveScanLog w (started_log\<lparr>status := ''failed'', errorDetails := Some e,
                                          completedAt := Some (now w)\<rparr>) = None"
  shows "scanAndProcess w st =
           (Inl (''Scan process failed: '' @ e),
            st\<lparr>scanLogs := scanLogs st @
              [\<lparr>status = ''failed'', emailsProcessed = 0, documentsProcessed = 0,
                errorsCount = 0, errorDetails = Some e, completedAt = Some (now w)\<rparr>]\<rparr>)"
proof -
  let ?st0 = "st\<lparr>scanLogs := scanLogs st @ [started_log]\<rparr>"
  have nothing_new: "\<And>messages. set messages \<subseteq> emailId ` set (documents st) \<Longrightarrow>
      filter (\<lambda>msg. msg \<notin> emailId ` set (documents st)) messages = []"
    by (auto simp: filter_empty_conv)
  from cause have body:
    "scan_body w ?st0 started_log = (Inl (e, started_log), ?st0) \<or>
     scan_body w ?st0 started_log =
       (Inl (e, started_log\<lparr>status := ''completed'', completedAt := Some (now w)\<rparr>), ?st0)"
    by (auto simp: scan_body_def getProcessedEmailIds_def nothing_new)
  then show ?thesis
    using first last
    by (auto simp: scanAndProcess_def update_log_def started_log_def)
qed

theorem scan_fails_before_the_loop_witness:
  "scanAndProcess folderless_world empty_store =
     (Inl ''Scan process failed: Failed to manage Drive folder: quota exceeded'',
      \<lparr>documents = [],
       scanLogs =
         [\<lparr>status = ''failed'', emailsProcessed = 0, documentsProcessed = 0, errorsCount = 0,
           errorDetails = Some ''Failed to manage Drive folder: quota exceeded'',
           completedAt = Some 2000\<rparr>],
       labelled = [], fetched = []\<rparr>)"
proof -
  have first: "saveScanLog folderless_world started_log = None"
    by (simp add: folderless_world_def quiet_world_def)
  have cause: "provision folderless_world = Inl ''Failed to manage Drive folder: quota exceeded''"
    by (simp add: provision_def folderless_world_def quiet_world_def)
  have last: "saveScanLog folderless_world
      (started_log\<lparr>status := ''failed'',
                    errorDetails := Some ''Failed to manage Drive folder: quota exceeded'',
                    completedAt := Some (now folderless_world)\<rparr>) = None"
    by (simp add: folderless_world_def quiet_world_def)
  have clock: "now folderless_world = 2000"
    by (simp add: folderless_world_def quiet_world_def)
  from scan_fails_before_the_loop [OF first disjI1 [OF cause] last, of empty_store]
  show ?thesis
    by (simp add: empty_store_def clock)
qed

text \<open>
  C5. When every email the search finds already has a processed document, and the
  collaborators of the run answer, the scan returns zero processed emails, no error and
  no document; the store gains one completed log with every counter 0 and nothing
  else: no email is fetched.
\<close>

theorem scan_without_new_emails:
  assumes "saveScanLog w started_log = None"
    and "provision w = Inr p"
    and "findDocumentsFails w = None"
    and "searchEmails w = Inr messages"
    and "set messages \<subseteq> emailId ` set (documents st)"
    and "saveScanLog w (started_log\<lparr>status := ''completed'',
                                    completedAt := Some (now w)\<rparr>) = None"
  shows "scanAndProcess w st =
           (Inr \<lparr>processed = 0, errors = [], details = []\<rparr>,
            st\<lparr>scanLogs := scanLogs st @
              [\<lparr>status = ''completed'', emailsProcessed = 0, documentsProcessed = 0,
                errorsCount = 0, errorDetails = None, completedAt = Some (now w)\<rparr>]\<rparr>)"
proof -
  have nothing_new: "filter (\<lambda>msg. msg \<notin> emailId ` set (documents st)) messages = []"
    using assms(5) by (auto simp: filter_empty_conv)
  obtain fid sid where p: "p = (fid, sid)" by (cases p)
  show ?thesis
    using assms(1-4,6) p
    by (simp add: scanAndProcess_def scan_body_def getProcessedEmailIds_def nothing_new
        update_log_def started_log_def empty_result_def)
qed

theorem scan_without_new_emails_witness:
  "scanAndProcess quiet_world archived_store =
     (Inr \<lparr>processed = 0, errors = [], details = []\<rparr>,
      \<lparr>documents = [document_of ''m1'', document_of ''m2'', document_of ''m3''],
       scanLogs =
         [\<lparr>status = ''completed'', emailsProcessed = 0, documentsProcessed = 0,
           errorsCount = 0, errorDetails = None, completedAt = Some 2000\<rparr>],
       labelled = [], fetched = []\<rparr>)"
proof -
  have a: "saveScanLog quiet_world started_log = None"
    and b: "provision quiet_world = Inr (''folder-1'', ''sheet-1'')"
    and c: "findDocumentsFails quiet_world = None"
    and d: "searchEmails quiet_world = Inr [''m1'', ''m2'', ''m3'']"
    and f: "saveScanLog quiet_world
             (started_log\<lparr>status := ''completed'', completedAt := Some (now quiet_world)\<rparr>) = None"
    by (simp_all add: quiet_fields provision_def)
  have e: "set [''m1'', ''m2'', ''m3''] \<subseteq> emailId ` set (documents archived_store)"
    by (simp add: archived_store_def document_of_def)
  from scan_without_new_emails [OF a b c d e f] show ?thesis
    by (simp add: archived_store_def quiet_fields)
qed

text \<open>
  C9. When the pipeline of an email fails after a document has been saved, the loop
  records the email as an error and goes on from the store that holds the document: the
  email's identifier is among the processed identifiers, and no later scan, in any world,
  from any store that still holds the documents, fetches that email again; the
  documents are still there after it.
\<close>

theorem failure_after_save_is_not_rolled_back:
  assumes "processEmail w st m f s = (Inl e, st1)"
    and "documents st1 \<noteq> documents st"
  shows "scan_loop w f s (m # ms) r st =
           scan_loop w f s ms (r\<lparr>errors := errors r @ [''Email '' @ m @ '': '' @ e]\<rparr>) st1 \<and>
         m \<in> emailId ` set (documents st1) \<and>
         (\<forall>w' st2 res st3.
            set (documents st1) \<subseteq> set (documents st2) \<and> scanAndProcess w' st2 = (res, st3) \<longrightarrow>
            (\<exists>new. fetched st3 = fetched st2 @ new \<and> m \<notin> set new) \<and>
            set (documents st1) \<subseteq> set (documents st3))"
proof (intro conjI allI impI)
  show "scan_loop w f s (m # ms) r st =
          scan_loop w f s ms (r\<lparr>errors := errors r @ [''Email '' @ m @ '': '' @ e]\<rparr>) st1"
    using assms(1) by simp
  show in_set: "m \<in> emailId ` set (documents st1)"
    using processEmail_cases [OF assms(1)] assms(2) by auto
  fix w' st2 res st3
  assume a: "set (documents st1) \<subseteq> set (documents st2) \<and> scanAndProcess w' st2 = (res, st3)"
  then have run: "scanAndProcess w' st2 = (res, st3)" by simp
  from scanAndProcess_effect [OF run] obtain new added where
    eff: "fetched st3 = fetched st2 @ new" "set new \<inter> emailId ` set (documents st2) = {}"
      "documents st3 = documents st2 @ added"
    by auto
  from in_set a have "m \<in> emailId ` set (documents st2)" by auto
  with eff(2) have "m \<notin> set new" by auto
  with eff(1) show "\<exists>new. fetched st3 = fetched st2 @ new \<and> m \<notin> set new" by auto
  from a eff(3) show "set (documents st1) \<subseteq> set (documents st3)" by auto
qed

theorem failure_after_save_is_not_rolled_back_witness:
  "fst (processEmail quiet_world empty_store ''m4'' ''folder-1'' ''sheet-1'') =
     Inl ''Failed to process attachment invoice.pdf: structuredFilename is not defined'' \<and>
   documents (snd (processEmail quiet_world empty_store ''m4'' ''folder-1'' ''sheet-1'')) =
     [document_of ''m4''] \<and>
   ''m4'' \<in> emailId `
     set (documents (snd (processEmail quiet_world empty_store ''m4'' ''folder-1'' ''sheet-1''))) \<and>
   (\<exists>new.
      fetched (snd (scanAndProcess rescan_world
                      (snd (processEmail quiet_world empty_store ''m4'' ''folder-1'' ''sheet-1'')))) =
      fetched (snd (processEmail quiet_world empty_store ''m4'' ''folder-1'' ''sheet-1'')) @ new \<and>
      ''m4'' \<notin> set new)"
proof -
  let ?run = "processEmail quiet_world empty_store ''m4'' ''folder-1'' ''sheet-1''"
  let ?e = "''Failed to process attachment invoice.pdf: structuredFilename is not defined''"
  have out: "fst ?run = Inl ?e" by (rule m4(1))
  have docs: "documents (snd ?run) = [document_of ''m4'']"
    by (simp add: m4(2) empty_store_def document_of_def)
  have h1: "?run = (Inl ?e, snd ?run)"
    using out by (metis prod.collapse)
  have h2: "documents (snd ?run) \<noteq> documents empty_store"
    by (simp only: docs) (simp add: empty_store_def)
  note inst = failure_after_save_is_not_rolled_back [OF h1 h2, of "[]" empty_result]
  from inst have mem: "''m4'' \<in> emailId ` set (documents (snd ?run))" by blast
  from inst have future: "\<And>w' st2 res st3.
      set (documents (snd ?run)) \<subseteq> set (documents st2) \<and> scanAndProcess w' st2 = (res, st3) \<Longrightarrow>
      \<exists>new. fetched st3 = fetched st2 @ new \<and> ''m4'' \<notin> set new"
    by blast
  have "\<exists>new. fetched (snd (scanAndProcess rescan_world (snd ?run))) = fetched (snd ?run) @ new \<and>
          ''m4'' \<notin> set new"
    by (rule future [of "snd ?run" rescan_world "fst (scanAndProcess rescan_world (snd ?run))"]) simp
  with out docs mem show ?thesis by blast
qed

section \<open>Three emails with document attachments\<close>

text \<open>
  The scenario of the specification's partial-failure property, as the code runs it: three
  unprocessed emails with one PDF each, and only the download for \<open>m2\<close> fails. The
  documents of \<open>m1\<close> and \<open>m3\<close> are saved, but both emails end as errors, because the
  summary pushed after the save reads \<open>structuredFilename\<close>, which nothing declares: no
  email counts as processed and none is labelled.
\<close>

lemma pdf_world_saved:
  assumes "m \<noteq> ''m2''"
  shows "processEmail pdf_world st m ''folder-1'' ''sheet-1'' =
     (Inl ''Failed to process attachment invoice.pdf: structuredFilename is not defined'',
      st\<lparr>fetched := fetched st @ [m], documents := documents st @ [document_of m]\<rparr>)"
  using assms
  by (simp add: processEmail_def pdf_world_def quiet_world_def email_with_def
      attachment_named_def process_attachment_def example_files generated_name
      read_variable_def formatFileSize_examples extractSenderName_def document_of_def
      chars_eval strings_eval patterns_eval)

lemma pdf_world_download_fails:
  "processEmail pdf_world st ''m2'' f s =
     (Inl ''Failed to process attachment bill.pdf: Failed to download attachment: timeout'',
      st\<lparr>fetched := fetched st @ [''m2'']\<rparr>)"
  by (simp add: processEmail_def pdf_world_def quiet_world_def email_with_def
      attachment_named_def process_attachment_def example_files)

lemma scan_three_document_emails:
  "fst (scanAndProcess pdf_world empty_store) =
     Inr \<lparr>processed = 0,
          errors =
            [''Email m1: Failed to process attachment invoice.pdf: structuredFilename is not defined'',
             ''Email m2: Failed to process attachment bill.pdf: Failed to download attachment: timeout'',
             ''Email m3: Failed to process attachment invoice.pdf: structuredFilename is not defined''],
          details = []\<rparr>"
  "documents (snd (scanAndProcess pdf_world empty_store)) = [document_of ''m1'', document_of ''m3'']"
  "labelled (snd (scanAndProcess pdf_world empty_store)) = []"
proof -
  have fields:
    "now pdf_world = 2000"
    "ensureFolderExists pdf_world = (\<lambda>n. Inr ''folder-1'')"
    "ensureSpreadsheetExists pdf_world = (\<lambda>n. Inr ''sheet-1'')"
    "findDocumentsFails pdf_world = None"
    "searchEmails pdf_world = Inr [''m1'', ''m2'', ''m3'']"
    "saveScanLog pdf_world = (\<lambda>l. None)"
    by (simp_all add: pdf_world_def quiet_world_def)
  have run: "scanAndProcess pdf_world empty_store =
     (Inr \<lparr>processed = 0,
          errors =
            [''Email m1: Failed to process attachment invoice.pdf: structuredFilename is not defined'',
             ''Email m2: Failed to process attachment bill.pdf: Failed to download attachment: timeout'',
             ''Email m3: Failed to process attachment invoice.pdf: structuredFilename is not defined''],
          details = []\<rparr>,
      \<lparr>documents = [document_of ''m1'', document_of ''m3''],
       scanLogs =
         [\<lparr>status = ''completed'', emailsProcessed = 0, documentsProcessed = 0, errorsCount = 3,
           errorDetails = Some (json_stringify
            [''Email m1: Failed to process attachment invoice.pdf: structuredFilename is not defined'',
             ''Email m2: Failed to process attachment bill.pdf: Failed to download attachment: timeout'',
             ''Email m3: Failed to process attachment invoice.pdf: structuredFilename is not defined'']),
           completedAt = Some 2000\<rparr>],
       labelled = [], fetched = [''m1'', ''m2'', ''m3'']\<rparr>)"
    by (simp add: scanAndProcess_def scan_body_def provision_def getProcessedEmailIds_def
        pdf_world_saved pdf_world_download_fails update_log_def started_log_def
        empty_result_def fields empty_store_def)
  show "fst (scanAndProcess pdf_world empty_store) =
     Inr \<lparr>processed = 0,
          errors =
            [''Email m1: Failed to process attachment invoice.pdf: structuredFilename is not defined'',
             ''Email m2: Failed to process attachment bill.pdf: Failed to download attachment: timeout'',
             ''Email m3: Failed to process attachment invoice.pdf: structuredFilename is not defined''],
          details = []\<rparr>"
    by (simp add: run)
  show "documents (snd (scanAndProcess pdf_world empty_store)) = [document_of ''m1'', document_of ''m3'']"
    by (simp add: run)
  show "labelled (snd (scanAndProcess pdf_world empty_store)) = []"
    by (simp add: run)
qed

section \<open>Properties of the invoice-number patterns\<close>

lemma takeWhile_all_digits: "list_all is_digit (takeWhile is_digit xs)"
  by (induction xs) simp_all

lemma match_at_digits:
  assumes "match_at p s = Some d"
  shows "list_all is_digit d \<and> minDigits p \<le> length d"
proof (cases "match_keyword (ignoreCase p) (keyword p) s")
  case None
  with assms show ?thesis by (simp add: match_at_def)
next
  case (Some r)
  with assms show ?thesis
    by (auto simp: match_at_def Let_def takeWhile_all_digits split: if_splits)
qed

lemma regex_match_digits:
  "regex_match p s = Some d \<Longrightarrow> list_all is_digit d \<and> minDigits p \<le> length d"
proof (induction s)
  case Nil
  then show ?case using match_at_digits [of p "[]" d] by simp
next
  case (Cons c cs)
  show ?case
  proof (cases "match_at p (c # cs)")
    case None
    with Cons show ?thesis by simp
  next
    case (Some d')
    with Cons.prems have "d' = d" by simp
    with Some match_at_digits [of p "c # cs" d] show ?thesis by simp
  qed
qed


lemma first_match_prefix:
  assumes "i < length ps"
    and "\<forall>j<i. regex_match (ps ! j) subj = None"
    and "regex_match (ps ! i) subj = Some d"
  shows "first_match ps subj = Some d"
  using assms
proof (induction ps arbitrary: i)
  case Nil
  then show ?case by simp
next
  case (Cons p ps)
  show ?case
  proof (cases i)
    case 0
    with Cons.prems show ?thesis by simp
  next
    case (Suc k)
    with Cons.prems have head: "regex_match p subj = None" by auto
    from Suc Cons.prems have "k < length ps" "\<forall>j<k. regex_match (ps ! j) subj = None"
      "regex_match (ps ! k) subj = Some d" by auto
    from Cons.IH [OF this] head show ?thesis by simp
  qed
qed

lemma first_match_none:
  "(\<forall>p \<in> set ps. regex_match p subj = None) \<Longrightarrow> first_match ps subj = None"
  by (induction ps) auto

lemma DriveService_patterns_minDigits:
  "p \<in> set DriveService_patterns \<Longrightarrow> 1 \<le> minDigits p"
  by (auto simp: DriveService_patterns_def keyword_pattern_def hash_pattern_def digits4_pattern_def)

lemma match_keyword_sound:
  "match_keyword ic ks s = Some r \<Longrightarrow>
     \<exists>k. s = k @ r \<and> list_all2 (char_matches ic) ks k"
proof (induction ic ks s rule: match_keyword.induct)
  case (1 ic s)
  then show ?case by simp
next
  case (2 ic k ks)
  then show ?case by simp
next
  case (3 ic k ks c cs)
  from "3.prems" have hd: "char_matches ic k c" and tl: "match_keyword ic ks cs = Some r"
    by (auto split: if_splits)
  from "3.IH" [OF hd tl] obtain k' where "cs = k' @ r" "list_all2 (char_matches ic) ks k'"
    by blast
  with hd have "c # cs = (c # k') @ r \<and> list_all2 (char_matches ic) (k # ks) (c # k')"
    by simp
  then show ?case by blast
qed

lemma match_keyword_complete:
  "list_all2 (char_matches ic) ks k \<Longrightarrow> match_keyword ic ks (k @ r) = Some r"
  by (induction ks k rule: list_all2_induct) simp_all

lemma digit_not_separator: "is_digit c \<Longrightarrow> \<not> is_separator c"
  unfolding is_digit_def is_separator_def is_space_def
  by (elim disjE | simp)+

text \<open>
  A match of a pattern is an occurrence in the sense of the specification, and where a
  pattern occurs with at least one digit, the search finds a match.
\<close>

lemma takeWhile_list_all: "list_all P (takeWhile P xs)"
  by (induction xs) simp_all

lemma dropWhile_all: "list_all P xs \<Longrightarrow> dropWhile P (xs @ ys) = dropWhile P ys"
  by (induction xs) auto

lemma takeWhile_all: "list_all P xs \<Longrightarrow> takeWhile P (xs @ ys) = xs @ takeWhile P ys"
  by (induction xs) auto

lemma match_at_sound:
  assumes "match_at p s = Some d"
  shows "occurs_at p [] d s"
proof -
  from assms obtain r where kw: "match_keyword (ignoreCase p) (keyword p) s = Some r"
    by (auto simp: match_at_def split: option.splits)
  define r' where "r' = (if separators p then dropWhile is_separator r else r)"
  define sep where "sep = (if separators p then takeWhile is_separator r else [])"
  from assms kw have d: "d = takeWhile is_digit r'" and len: "minDigits p \<le> length d"
    by (auto simp: match_at_def Let_def r'_def split: if_splits)
  from match_keyword_sound [OF kw] obtain k where
    k: "s = k @ r" "list_all2 (char_matches (ignoreCase p)) (keyword p) k" by blast
  have r: "r = sep @ r'" by (simp add: sep_def r'_def)
  have seps: "list_all is_separator sep"
    by (simp add: sep_def takeWhile_list_all)
  define rest where "rest = dropWhile is_digit r'"
  have tail: "d @ rest = r'" by (simp add: d rest_def)
  have stop: "rest = [] \<or> \<not> is_digit (hd rest)"
    unfolding rest_def using hd_dropWhile [of is_digit r'] by blast
  have whole: "s = [] @ k @ sep @ d @ rest"
    using k(1) r tail by simp
  have digits: "list_all is_digit d" by (simp add: d takeWhile_all_digits)
  have allowed: "separators p \<or> sep = []" by (simp add: sep_def)
  from whole k(2) seps allowed digits len stop show ?thesis
    unfolding occurs_at_def by blast
qed

lemma match_at_complete:
  assumes "occurs_at p [] d s" and "d \<noteq> []"
  shows "match_at p s = Some d"
proof -
  from assms(1) obtain k sep rest where
    s: "s = [] @ k @ sep @ d @ rest"
    and k: "list_all2 (char_matches (ignoreCase p)) (keyword p) k"
    and sep: "list_all is_separator sep" "separators p \<or> sep = []"
    and d: "list_all is_digit d" "minDigits p \<le> length d"
    and rest: "rest = [] \<or> \<not> is_digit (hd rest)"
    unfolding occurs_at_def by blast
  have kw: "match_keyword (ignoreCase p) (keyword p) s = Some (sep @ d @ rest)"
    by (simp add: s match_keyword_complete [OF k])
  from assms(2) obtain x xs where dx: "d = x # xs" by (cases d) auto
  with d(1) have "\<not> is_separator x" by (simp add: digit_not_separator)
  then have "dropWhile is_separator (d @ rest) = d @ rest" by (simp add: dx)
  with sep(1) have skip: "dropWhile is_separator (sep @ d @ rest) = d @ rest"
    by (simp add: dropWhile_all)
  have "takeWhile is_digit rest = []"
    using rest by (cases rest) auto
  with d(1) have take: "takeWhile is_digit (d @ rest) = d"
    by (simp add: takeWhile_all)
  show ?thesis
  proof (cases "separators p")
    case True
    then show ?thesis by (simp add: match_at_def kw skip take d(2))
  next
    case False
    with sep(2) have "sep = []" by simp
    with False show ?thesis by (simp add: match_at_def kw take d(2))
  qed
qed

lemma regex_match_sound:
  "regex_match p s = Some d \<Longrightarrow> \<exists>pre. occurs_at p pre d s"
proof (induction s)
  case Nil
  then have "occurs_at p [] d []" by (simp add: match_at_sound)
  then show ?case by blast
next
  case (Cons c cs)
  show ?case
  proof (cases "match_at p (c # cs)")
    case (Some d')
    with Cons.prems have "match_at p (c # cs) = Some d" by simp
    then have "occurs_at p [] d (c # cs)" by (rule match_at_sound)
    then show ?thesis by blast
  next
    case None
    with Cons.prems have "regex_match p cs = Some d" by simp
    from Cons.IH [OF this] obtain pre where "occurs_at p pre d cs" by blast
    then obtain k sep rest where
      "cs = pre @ k @ sep @ d @ rest"
      and *: "list_all2 (char_matches (ignoreCase p)) (keyword p) k"
        "list_all is_separator sep" "separators p \<or> sep = []"
        "list_all is_digit d" "minDigits p \<le> length d"
        "rest = [] \<or> \<not> is_digit (hd rest)"
      unfolding occurs_at_def by blast
    then have "c # cs = (c # pre) @ k @ sep @ d @ rest" by simp
    with * have "occurs_at p (c # pre) d (c # cs)" unfolding occurs_at_def by blast
    then show ?thesis by blast
  qed
qed

lemma occurs_at_shift:
  assumes "occurs_at p (c # pre) d (c # cs)"
  shows "occurs_at p pre d cs"
proof -
  from assms obtain k sep rest where
    "c # cs = (c # pre) @ k @ sep @ d @ rest"
    and *: "list_all2 (char_matches (ignoreCase p)) (keyword p) k"
      "list_all is_separator sep" "separators p \<or> sep = []"
      "list_all is_digit d" "minDigits p \<le> length d"
      "rest = [] \<or> \<not> is_digit (hd rest)"
    unfolding occurs_at_def by blast
  then have "cs = pre @ k @ sep @ d @ rest" by simp
  with * show ?thesis unfolding occurs_at_def by blast
qed

lemma regex_match_complete:
  "occurs_at p pre d s \<Longrightarrow> d \<noteq> [] \<Longrightarrow> regex_match p s \<noteq> None"
proof (induction pre arbitrary: s)
  case Nil
  then have m: "match_at p s = Some d" by (simp add: match_at_complete)
  then show ?case by (cases s) simp_all
next
  case (Cons c pre)
  from Cons.prems(1) obtain cs where s: "s = c # cs"
    unfolding occurs_at_def by auto
  with Cons.prems(1) have "occurs_at p pre d cs" by (simp add: occurs_at_shift)
  from Cons.IH [OF this Cons.prems(2)] show ?case
    by (simp add: s split: option.splits)
qed

lemma toUpperCase_char_digit: "is_digit c \<Longrightarrow> toUpperCase_char c = c"
  unfolding is_digit_def toUpperCase_char_def lower_letters_def upper_letters_def
  by (elim disjE | simp)+

lemma toUpperCase_char_lower:
  "c \<in> set lower_letters \<Longrightarrow> toUpperCase_char c \<in> set upper_letters"
  unfolding toUpperCase_char_def lower_letters_def upper_letters_def
  by (elim disjE | simp)+

lemma toUpperCase_char_base36:
  "is_base36_digit c \<Longrightarrow> is_upper_alnum (toUpperCase_char c)"
  unfolding is_base36_digit_def is_upper_alnum_def
  using toUpperCase_char_digit [of c] toUpperCase_char_lower [of c] by auto

lemma random_token:
  assumes "is_random36 r"
  shows "length (toUpperCase (substr r 2 6)) \<le> 6 \<and>
         list_all is_upper_alnum (toUpperCase (substr r 2 6)) \<and>
         (8 \<le> length r \<longrightarrow> length (toUpperCase (substr r 2 6)) = 6)"
proof -
  have "list_all is_base36_digit (drop 2 r)"
    using assms by (auto simp: is_random36_def)
  then have "list_all is_base36_digit (take 6 (drop 2 r))"
    by (auto simp: list_all_iff dest: in_set_takeD)
  then have "list_all is_upper_alnum (toUpperCase (substr r 2 6))"
    by (simp add: toUpperCase_def substr_def list_all_iff toUpperCase_char_base36)
  then show ?thesis
    by (auto simp: toUpperCase_def substr_def)
qed

lemmas invoice_eval = chars_eval strings_eval patterns_eval

lemma extractInvoiceNumber_examples:
  "DriveService_extractInvoiceNumber r ''Invoice #4821 - March'' = ''INV4821''"
  "DriveService_extractInvoiceNumber r ''invoice#123'' = ''INV123''"
  "DriveService_extractInvoiceNumber r ''inv#123'' = ''INV123''"
  "DriveService_extractInvoiceNumber r ''bill#123'' = ''INV123''"
  "DriveService_extractInvoiceNumber r ''receipt#123'' = ''INV123''"
  "DriveService_extractInvoiceNumber r ''#123'' = ''INV123''"
  "DriveService_extractInvoiceNumber r ''ref 20240301'' = ''INV20240301''"
  "DriveService_extractInvoiceNumber r ''bill 5 then invoice 7'' = ''INV7''"
  "DriveService_extractInvoiceNumber r ''ref 12345 and #77'' = ''INV77''"
  by (simp_all add: invoice_eval)

text \<open>
  C6, as the claim states it, fails in its last part: when no pattern matches, the result
  need not match \<open>^INV[A-Z0-9]{6}$\<close>. \<open>substr(2, 6)\<close> takes at most six characters of
  the base-36 string, and that string can be shorter: for \<open>Math.random() = 0.5\<close> it is
  \<open>0.i\<close>, and the token is \<open>INVI\<close>.
\<close>

theorem invoice_token_short_random_string:
  "first_match DriveService_patterns ''Your documents'' = None \<and>
   is_random36 ''0.i'' \<and>
   DriveService_extractInvoiceNumber ''0.i'' ''Your documents'' = ''INVI'' \<and>
   \<not> matches_INV6 (DriveService_extractInvoiceNumber ''0.i'' ''Your documents'')"
  by (simp add: invoice_eval is_random36_def matches_INV6_def)

text \<open>
  C6, amended. The patterns are tried in the order invoice, inv, bill, receipt, \<open>#\<close>,
  four digits or more: the result is \<open>INV\<close> followed by the digits of the first pattern
  of the list that matches, a non-empty run of digits. When no pattern matches, the
  result is \<open>INV\<close> followed by at most six characters of \<open>[A-Z0-9]\<close>; it matches
  \<open>^INV[A-Z0-9]{6}$\<close> whenever the base-36 string of the random number has at least six
  digits after \<open>0.\<close>
\<close>

theorem invoice_token_derivation:
  "(\<forall>i < length DriveService_patterns.
      (\<forall>j<i. regex_match (DriveService_patterns ! j) subj = None) \<and>
      regex_match (DriveService_patterns ! i) subj = Some d \<longrightarrow>
        DriveService_extractInvoiceNumber r subj = ''INV'' @ d \<and>
        d \<noteq> [] \<and> list_all is_digit d) \<and>
   ((\<forall>p \<in> set DriveService_patterns. regex_match p subj = None) \<and> is_random36 r \<longrightarrow>
      (\<exists>t. DriveService_extractInvoiceNumber r subj = ''INV'' @ t \<and>
           length t \<le> 6 \<and> list_all is_upper_alnum t) \<and>
      (8 \<le> length r \<longrightarrow> matches_INV6 (DriveService_extractInvoiceNumber r subj)))"
proof (intro conjI allI impI)
  fix i
  assume i: "i < length DriveService_patterns"
    and m: "(\<forall>j<i. regex_match (DriveService_patterns ! j) subj = None) \<and>
      regex_match (DriveService_patterns ! i) subj = Some d"
  from first_match_prefix [OF i] m
  have "first_match DriveService_patterns subj = Some d" by blast
  then show "DriveService_extractInvoiceNumber r subj = ''INV'' @ d"
    by (simp add: DriveService_extractInvoiceNumber_def)
  from m regex_match_digits have dg: "list_all is_digit d"
    and len: "minDigits (DriveService_patterns ! i) \<le> length d" by blast+
  show "list_all is_digit d" by (rule dg)
  from i have "1 \<le> minDigits (DriveService_patterns ! i)"
    by (intro DriveService_patterns_minDigits nth_mem)
  with len show "d \<noteq> []" by auto
next
  assume a: "(\<forall>p \<in> set DriveService_patterns. regex_match p subj = None) \<and> is_random36 r"
  then have none: "first_match DriveService_patterns subj = None"
    by (simp add: first_match_none)
  from a random_token [of r] 
  show "\<exists>t. DriveService_extractInvoiceNumber r subj = ''INV'' @ t \<and>
           length t \<le> 6 \<and> list_all is_upper_alnum t"
    by (simp add: DriveService_extractInvoiceNumber_def none)
  assume "8 \<le> length r"
  with a random_token [of r]
  show "matches_INV6 (DriveService_extractInvoiceNumber r subj)"
    by (simp add: DriveService_extractInvoiceNumber_def none matches_INV6_def)
qed

theorem invoice_token_derivation_witness:
  "DriveService_extractInvoiceNumber ''0.4fzyo82mvyr'' ''Invoice #4821 - March'' = ''INV4821'' \<and>
   DriveService_extractInvoiceNumber ''0.4fzyo82mvyr'' ''ref 20240301'' = ''INV20240301'' \<and>
   matches_INV6 (DriveService_extractInvoiceNumber ''0.4fzyo82mvyr'' ''Your documents'') \<and>
   (\<exists>t. DriveService_extractInvoiceNumber ''0.i'' ''Your documents'' = ''INV'' @ t \<and>
        length t \<le> 6 \<and> list_all is_upper_alnum t)"
proof -
  have first: "regex_match (DriveService_patterns ! 0) ''Invoice #4821 - March'' = Some ''4821''"
    by (simp add: invoice_eval)
  have earlier: "regex_match (DriveService_patterns ! j) ''ref 20240301'' = None" if "j < 5" for j
  proof -
    from that consider "j = 0" | "j = 1" | "j = 2" | "j = 3" | "j = 4" by linarith
    then show ?thesis by cases (simp_all add: invoice_eval)
  qed
  have sixth: "\<forall>j<5. regex_match (DriveService_patterns ! j) ''ref 20240301'' = None"
    "regex_match (DriveService_patterns ! 5) ''ref 20240301'' = Some ''20240301''"
    using earlier by (simp_all add: invoice_eval)
  have none: "\<forall>p \<in> set DriveService_patterns. regex_match p ''Your documents'' = None"
    by (simp add: invoice_eval)
  have r: "is_random36 ''0.4fzyo82mvyr''" "is_random36 ''0.i''" "8 \<le> length ''0.4fzyo82mvyr''"
    by (simp_all add: is_random36_def chars_eval)
  have len: "0 < length DriveService_patterns" "5 < length DriveService_patterns"
    by (simp_all add: DriveService_patterns_def)
  note a = invoice_token_derivation
    [of "''Invoice #4821 - March''" "''4821''" "''0.4fzyo82mvyr''", THEN conjunct1, rule_format,
      OF len(1)]
  note b = invoice_token_derivation
    [of "''ref 20240301''" "''20240301''" "''0.4fzyo82mvyr''", THEN conjunct1, rule_format,
      OF len(2)]
  note c = invoice_token_derivation
    [of "''Your documents''" _ "''0.4fzyo82mvyr''", THEN conjunct2, rule_format]
  note d = invoice_token_derivation
    [of "''Your documents''" _ "''0.i''", THEN conjunct2, rule_format]
  from a first have 1:
    "DriveService_extractInvoiceNumber ''0.4fzyo82mvyr'' ''Invoice #4821 - March'' = ''INV4821''"
    by simp
  from b sixth have 2:
    "DriveService_extractInvoiceNumber ''0.4fzyo82mvyr'' ''ref 20240301'' = ''INV20240301''"
    by simp
  from c none r(1,3) have 3:
    "matches_INV6 (DriveService_extractInvoiceNumber ''0.4fzyo82mvyr'' ''Your documents'')"
    by blast
  from d none r(2) have 4:
    "\<exists>t. DriveService_extractInvoiceNumber ''0.i'' ''Your documents'' = ''INV'' @ t \<and>
        length t \<le> 6 \<and> list_all is_upper_alnum t"
    by blast
  from 1 2 3 4 show ?thesis by blast
qed

end
